theory Spec2Isabelle
  imports Main "HOL-Library.AList" "HOL-Library.Sublist"
begin

section \<open>Git Script Sync: a shallow embedding of \<^verbatim>\<open>auto.py\<close>\<close>

text \<open>
  The program mirrors the app folders of a local scripts directory into a per-user folder
  of a git working copy, then commits and pushes. The embedding follows the class
  \<^verbatim>\<open>GitScriptSync\<close> method by method. The file system is a tree of named nodes, the
  git tool and the host (environment variables, clock, file-system faults) are explicit
  parameters, a raised exception is the \<open>Inl\<close> branch of a result, and every method
  returns the world it leaves behind.
\<close>

subsection \<open>Configuration\<close>

text \<open>
  A value of the YAML document read by \<^verbatim>\<open>load_config\<close>, as \<^verbatim>\<open>yaml.safe_load\<close>
  returns it: \<^verbatim>\<open>None\<close>, a boolean, an integer, a string, a list of strings or a
  dictionary with string keys, each key listed once. A list with an item that is not a
  string and a dictionary with a key that is not a string are not represented.
\<close>

datatype yaml =
    YNull
  | YBool bool
  | YInt int
  | YStr string
  | YSeq "string list"
  | YMap "(string \<times> yaml) list"

text \<open>
  The document itself: the \<^verbatim>\<open>git\<close> section, which \<^verbatim>\<open>__init__\<close> and
  \<^verbatim>\<open>setup_git_repo\<close> index without a default, and the value under the key
  \<^verbatim>\<open>sync\<close>, any YAML value, \<open>None\<close> when the document has no such key.
\<close>

record git_section =
  repository_url :: string
  local_repo_path :: string
  branch :: "string option"

record config =
  git :: git_section
  sync :: "yaml option"

datatype exn =
    FileNotFoundError
  | NotADirectoryError
  | FileExistsError
  | OSError
  | AttributeError
  | TypeError

text \<open>
  Line 99: \<^verbatim>\<open>self.config.get('sync', {}).get('exclude_extensions', ['.tmp', '.log', '.bak'])\<close>.
  \<^verbatim>\<open>dict.get\<close> gives its default only when the key is absent: a \<^verbatim>\<open>sync\<close> value
  that is no dictionary has no \<^verbatim>\<open>get\<close> and raises \<^verbatim>\<open>AttributeError\<close>, and a key
  \<^verbatim>\<open>exclude_extensions\<close> that is present gives its value, whatever it is.
\<close>

definition excluded_extensions :: "config \<Rightarrow> exn + yaml" where
  "excluded_extensions cfg =
     (case sync cfg of
        None \<Rightarrow> Inr (YSeq [''.tmp'', ''.log'', ''.bak''])
      | Some (YMap m) \<Rightarrow>
          (case map_of m ''exclude_extensions'' of
             None \<Rightarrow> Inr (YSeq [''.tmp'', ''.log'', ''.bak''])
           | Some v \<Rightarrow> Inr v)
      | Some other \<Rightarrow> Inl AttributeError)"

text \<open>Line 167: \<^verbatim>\<open>self.config['git'].get('branch', 'main')\<close>.\<close>

definition branch_name :: "config \<Rightarrow> string" where
  "branch_name cfg = (case branch (git cfg) of None \<Rightarrow> ''main'' | Some b \<Rightarrow> b)"

text \<open>Lines 203-212: the document written by \<^verbatim>\<open>create_sample_git_config\<close>.\<close>

definition create_sample_git_config :: config where
  "create_sample_git_config =
     \<lparr> git = \<lparr> repository_url = ''https://github.com/yourcompany/scripts-repo.git'',
               local_repo_path = ''~/scripts-git-repo'',
               branch = Some ''main'' \<rparr>,
       sync = Some (YMap [(''exclude_extensions'',
                           YSeq [''.tmp'', ''.log'', ''.bak'', ''.swp'', ''.DS_Store''])]) \<rparr>"

subsection \<open>File system\<close>

text \<open>
  A path names a regular file with its content or a directory with its entries, in the
  order \<^verbatim>\<open>iterdir\<close> lists them. A path that does not exist is \<open>None\<close>.
\<close>

datatype node = File string | Dir "(string \<times> node) list"

type_synonym entries = "(string \<times> node) list"

text \<open>The node at a relative path, component by component.\<close>

fun lookup_path :: "node \<Rightarrow> string list \<Rightarrow> node option" where
  "lookup_path t [] = Some t"
| "lookup_path (File c) (n # p) = None"
| "lookup_path (Dir es) (n # p) =
     (case map_of es n of None \<Rightarrow> None | Some t \<Rightarrow> lookup_path t p)"

text \<open>A directory of the real file system holds each name once, at every depth.\<close>

fun valid_entries :: "entries \<Rightarrow> bool" where
  "valid_entries [] = True"
| "valid_entries ((n, File c) # es) = (n \<notin> fst ` set es \<and> valid_entries es)"
| "valid_entries ((n, Dir ds) # es) =
     (n \<notin> fst ` set es \<and> valid_entries ds \<and> valid_entries es)"

text \<open>Python's \<^verbatim>\<open>str.endswith\<close> and \<^verbatim>\<open>name.startswith('.')\<close>.\<close>

definition endswith :: "string \<Rightarrow> string \<Rightarrow> bool" where
  "endswith s suf = (length suf \<le> length s \<and> drop (length s - length suf) s = suf)"

definition hidden :: "string \<Rightarrow> bool" where
  "hidden name = (case name of [] \<Rightarrow> False | c # _ \<Rightarrow> c = CHR ''.'')"

text \<open>
  Line 121: \<^verbatim>\<open>any(file_path.name.endswith(ext) for ext in excluded_extensions)\<close>,
  for the strings that the iteration gives.
\<close>

definition excluded :: "string \<Rightarrow> string list \<Rightarrow> bool" where
  "excluded name exts = list_ex (\<lambda>ext. endswith name ext) exts"

text \<open>
  Lines 119-125: the walk over \<^verbatim>\<open>target_app_folder.rglob('*')\<close>, for a list of
  suffixes. Every regular file below the folder is either unlinked (its name is excluded)
  or counted; directories are kept whatever their name. The result is the folder's
  entries after the walk and the number of files counted.
\<close>

fun walk :: "string list \<Rightarrow> entries \<Rightarrow> entries \<times> nat" where
  "walk exts [] = ([], 0)"
| "walk exts ((n, File c) # es) =
     (let (es', k) = walk exts es
      in if excluded n exts then (es', k) else ((n, File c) # es', k + 1))"
| "walk exts ((n, Dir ds) # es) =
     (let (ds', j) = walk exts ds; (es', k) = walk exts es
      in ((n, Dir ds') # es', j + k))"

text \<open>
  What \<^verbatim>\<open>for ext in excluded_extensions\<close> iterates: the items of a list, the
  characters of a string, the keys of a dictionary; any other value is not iterable and
  raises \<^verbatim>\<open>TypeError\<close>.
\<close>

fun suffixes_of :: "yaml \<Rightarrow> exn + string list" where
  "suffixes_of (YSeq exts) = Inr exts"
| "suffixes_of (YStr s) = Inr (map (\<lambda>c. [c]) s)"
| "suffixes_of (YMap m) = Inr (map fst m)"
| "suffixes_of YNull = Inl TypeError"
| "suffixes_of (YBool b) = Inl TypeError"
| "suffixes_of (YInt i) = Inl TypeError"

text \<open>Whether a folder holds a regular file, at any depth.\<close>

fun has_file :: "entries \<Rightarrow> bool" where
  "has_file [] = False"
| "has_file ((n, File c) # es) = True"
| "has_file ((n, Dir ds) # es) = (has_file ds \<or> has_file es)"

text \<open>
  Lines 119-125 for a configured value: the exception the walk ends with, if any, the
  folder's entries after it and the number of files counted. With a value that is not
  iterable the test of line 121 raises at the first regular file the walk meets, before
  any file is unlinked or counted; a folder without regular files is walked to the end.
\<close>

definition walk_app :: "yaml \<Rightarrow> entries \<Rightarrow> exn option \<times> entries \<times> nat" where
  "walk_app v src =
     (case suffixes_of v of
        Inr exts \<Rightarrow> (None, walk exts src)
      | Inl e \<Rightarrow> (if has_file src then Some e else None, src, 0))"

subsection \<open>The host and the git tool\<close>

text \<open>
  What the file system does to one app folder during a run, beyond the tree itself
  (permissions, read errors): \<^verbatim>\<open>shutil.rmtree\<close> raises, \<^verbatim>\<open>shutil.copytree\<close> raises,
  or the walk raises after counting some files. Each carries what the failed call left
  at the target path.
\<close>

datatype fault =
    NoFault
  | RmtreeFault "node option"
  | CopyFault "node option"
  | WalkFault node nat

text \<open>
  How \<^verbatim>\<open>git pull\<close> and \<^verbatim>\<open>git clone\<close> end: the standard error of a failure, or
  the entries of the directory they leave at the repository path (for a pull that brought
  something, the tree of the new last commit and the working copy).
\<close>

datatype pull_outcome = PullFailed string | UpToDate | Updated entries entries

datatype clone_outcome = CloneFailed string | Cloned entries

text \<open>
  The host of one run: the environment variables read by \<^verbatim>\<open>os.getenv\<close>, the clock
  as formatted by \<^verbatim>\<open>strftime\<close>, the faults of the file system, whether the parent of
  the repository path exists, and how each git command ends (\<open>Some\<close> is the standard
  error of a non-zero exit).
\<close>

record host =
  env_USER :: "string option"
  env_USERNAME :: "string option"
  now :: string
  faults :: "string \<Rightarrow> fault"
  parent_exists :: bool
  pull_outcome :: pull_outcome
  clone_outcome :: clone_outcome
  status_err :: "string option"
  add_err :: "string option"
  commit_err :: "string option"
  push_err :: "string option"

datatype git_cmd =
    GitPull
  | GitClone string string
  | GitStatus
  | GitAdd
  | GitCommit string
  | GitPush string

text \<open>
  The lines printed by the program, one constructor per \<^verbatim>\<open>print\<close> that reports a
  stage, a warning or an error (the banner lines and the per-file
  \<^verbatim>\<open>Excluded:\<close> lines are left out).
\<close>

datatype msg =
    UsingExistingRepo
  | PullWarning string
  | CloningRepository
  | RepositoryCloned
  | CloneError string
  | ScriptsDirNotFound
  | CopyingUnder string
  | ProcessingAppFolder string
  | CopiedAppFolder string
  | ErrorCopying string
  | TotalFilesCopied nat
  | StatusError string
  | NoChangesToCommit
  | ChangesDetected
  | AddError string
  | CommitError string
  | ChangesCommitted
  | PushError string
  | ChangesPushed
  | NoScriptsToSync
  | SyncCompleted

text \<open>
  The world a run acts on: the scripts directory, the working copy at the repository
  path, the tree of the last commit and the staged tree of the git tool, the git
  commands issued so far and the lines printed so far.
\<close>

record world =
  scripts :: "node option"
  repo :: "node option"
  head :: "node option"
  staged :: "node option"
  trace :: "git_cmd list"
  messages :: "msg list"

definition say :: "msg \<Rightarrow> world \<Rightarrow> world" where
  "say m w = w\<lparr>messages := messages w @ [m]\<rparr>"

text \<open>
  \<^verbatim>\<open>git status --porcelain\<close> prints nothing exactly when the working copy is the tree
  of the last commit.
\<close>

definition porcelain :: "world \<Rightarrow> string" where
  "porcelain w = (if head w = repo w then [] else ''?? changed'')"

text \<open>
  The git tool: exit status, captured output and effect of each command. A failing
  command changes nothing. \<^verbatim>\<open>git add .\<close> stages the working copy and
  \<^verbatim>\<open>git commit\<close> makes the staged tree the last commit.
\<close>

fun git_tool :: "host \<Rightarrow> git_cmd \<Rightarrow> world \<Rightarrow> (bool \<times> string) \<times> world" where
  "git_tool h GitPull w =
     (case pull_outcome h of
        PullFailed e \<Rightarrow> ((False, e), w)
      | UpToDate \<Rightarrow> ((True, ''Already up to date.''), w)
      | Updated c t \<Rightarrow> ((True, []), w\<lparr>repo := Some (Dir t), head := Some (Dir c)\<rparr>))"
| "git_tool h (GitClone url path) w =
     (case clone_outcome h of
        CloneFailed e \<Rightarrow> ((False, e), w)
      | Cloned t \<Rightarrow>
          ((True, []), w\<lparr>repo := Some (Dir t), head := Some (Dir t), staged := Some (Dir t)\<rparr>))"
| "git_tool h GitStatus w =
     (case status_err h of
        Some e \<Rightarrow> ((False, e), w)
      | None \<Rightarrow> ((True, porcelain w), w))"
| "git_tool h GitAdd w =
     (case add_err h of
        Some e \<Rightarrow> ((False, e), w)
      | None \<Rightarrow> ((True, []), w\<lparr>staged := repo w\<rparr>))"
| "git_tool h (GitCommit m) w =
     (case commit_err h of
        Some e \<Rightarrow> ((False, e), w)
      | None \<Rightarrow> ((True, []), w\<lparr>head := staged w\<rparr>))"
| "git_tool h (GitPush b) w =
     (case push_err h of
        Some e \<Rightarrow> ((False, e), w)
      | None \<Rightarrow> ((True, []), w))"

subsection \<open>\<^verbatim>\<open>GitScriptSync\<close>\<close>

text \<open>
  Lines 44-57, \<^verbatim>\<open>run_git_command\<close>: \<^verbatim>\<open>subprocess.run\<close> raises when the working
  directory is missing or is not a directory (\<open>in_parent\<close> is the call with
  \<^verbatim>\<open>cwd=self.repo_path.parent\<close>); otherwise the command runs and the method returns
  \<^verbatim>\<open>(True, stdout)\<close> or \<^verbatim>\<open>(False, stderr)\<close>.
\<close>

definition run_git_command ::
  "host \<Rightarrow> git_cmd \<Rightarrow> bool \<Rightarrow> world \<Rightarrow> (exn + bool \<times> string) \<times> world" where
  "run_git_command h cmd in_parent w =
     (let run = (let (r, w') = git_tool h cmd (w\<lparr>trace := trace w @ [cmd]\<rparr>) in (Inr r, w'))
      in if in_parent then (if parent_exists h then run else (Inl FileNotFoundError, w))
         else (case repo w of
                 None \<Rightarrow> (Inl FileNotFoundError, w)
               | Some (File c) \<Rightarrow> (Inl NotADirectoryError, w)
               | Some (Dir es) \<Rightarrow> run))"

text \<open>Lines 59-81, \<^verbatim>\<open>setup_git_repo\<close>.\<close>

definition setup_git_repo :: "config \<Rightarrow> host \<Rightarrow> world \<Rightarrow> (exn + bool) \<times> world" where
  "setup_git_repo cfg h w =
     (case repo w of
        Some t \<Rightarrow>
          (case run_git_command h GitPull False (say UsingExistingRepo w) of
             (Inl e, w1) \<Rightarrow> (Inl e, w1)
           | (Inr (success, output), w1) \<Rightarrow>
               (Inr True, if \<not> success then say (PullWarning output) w1 else w1))
      | None \<Rightarrow>
          (case run_git_command h
                  (GitClone (repository_url (git cfg)) (local_repo_path (git cfg))) True
                  (say CloningRepository w) of
             (Inl e, w1) \<Rightarrow> (Inl e, w1)
           | (Inr (success, output), w1) \<Rightarrow>
               if success then (Inr True, say RepositoryCloned w1)
               else (Inr False, say (CloneError output) w1)))"

text \<open>
  Lines 91 and 137:
  \<^verbatim>\<open>os.getenv('USER') or os.getenv('USERNAME') or 'unknown'\<close>; an empty string is
  false in Python.
\<close>

definition current_user :: "host \<Rightarrow> string" where
  "current_user h =
     (case env_USER h of
        Some (c # cs) \<Rightarrow> c # cs
      | _ \<Rightarrow> (case env_USERNAME h of Some (c # cs) \<Rightarrow> c # cs | _ \<Rightarrow> ''unknown''))"

text \<open>
  Line 95, \<^verbatim>\<open>user_folder_in_repo.mkdir(exist_ok=True)\<close>, on the entries of the
  repository directory: the entries with the user folder present, or the exception.
\<close>

definition mkdir_exist_ok :: "string \<Rightarrow> node option \<Rightarrow> exn + entries" where
  "mkdir_exist_ok u r =
     (case r of
        None \<Rightarrow> Inl FileNotFoundError
      | Some (File c) \<Rightarrow> Inl NotADirectoryError
      | Some (Dir es) \<Rightarrow>
          (case map_of es u of
             None \<Rightarrow> Inr (AList.update u (Dir []) es)
           | Some (File c) \<Rightarrow> Inl FileExistsError
           | Some (Dir ud) \<Rightarrow> Inr es))"

definition user_dir :: "entries \<Rightarrow> string \<Rightarrow> entries" where
  "user_dir es u = (case map_of es u of Some (Dir ud) \<Rightarrow> ud | _ \<Rightarrow> [])"

text \<open>What a failed call left at the target path: nothing, or a node.\<close>

definition leave :: "string \<Rightarrow> node option \<Rightarrow> entries \<Rightarrow> entries" where
  "leave name left ud =
     (case left of None \<Rightarrow> AList.delete name ud | Some t \<Rightarrow> AList.update name t ud)"

text \<open>
  Lines 110-112: \<^verbatim>\<open>if target_app_folder.exists(): shutil.rmtree(target_app_folder)\<close>,
  outside the \<^verbatim>\<open>try\<close>. \<^verbatim>\<open>rmtree\<close> raises on a regular file and on a fault.
\<close>

definition rmtree_existing :: "host \<Rightarrow> string \<Rightarrow> entries \<Rightarrow> exn \<times> entries + entries" where
  "rmtree_existing h name ud =
     (case map_of ud name of
        None \<Rightarrow> Inr ud
      | Some t \<Rightarrow>
          (case faults h name of
             RmtreeFault left \<Rightarrow> Inl (OSError, leave name left ud)
           | _ \<Rightarrow>
               (case t of
                  File c \<Rightarrow> Inl (NotADirectoryError, ud)
                | Dir ds \<Rightarrow> Inr (AList.delete name ud))))"

text \<open>
  Lines 105-130, the body of the loop for one app folder, on the entries of the user
  folder, the counter \<^verbatim>\<open>copied_files\<close> and the lines printed. An exception of
  \<^verbatim>\<open>rmtree\<close> leaves the loop (\<open>Some e\<close>); one of \<^verbatim>\<open>copytree\<close> or of the walk is
  caught by \<^verbatim>\<open>except Exception\<close> and the loop goes on. \<open>v\<close> is the value of
  \<^verbatim>\<open>excluded_extensions\<close>.
\<close>

definition copy_app ::
  "host \<Rightarrow> yaml \<Rightarrow> string \<Rightarrow> entries \<Rightarrow> entries \<times> nat \<times> msg list
     \<Rightarrow> exn option \<times> entries \<times> nat \<times> msg list" where
  "copy_app h v app_folder src s =
     (case s of (ud, copied_files, out) \<Rightarrow>
        (case rmtree_existing h app_folder ud of
           Inl (e, ud1) \<Rightarrow> (Some e, ud1, copied_files, out @ [ProcessingAppFolder app_folder])
         | Inr ud1 \<Rightarrow>
             (case faults h app_folder of
                CopyFault left \<Rightarrow>
                  (None, leave app_folder left ud1, copied_files,
                   out @ [ProcessingAppFolder app_folder, ErrorCopying app_folder])
              | WalkFault left k \<Rightarrow>
                  (None, AList.update app_folder left ud1, copied_files + k,
                   out @ [ProcessingAppFolder app_folder, ErrorCopying app_folder])
              | _ \<Rightarrow>
                  (case walk_app v src of
                     (r, es', k) \<Rightarrow>
                       (None, AList.update app_folder (Dir es') ud1, copied_files + k,
                        out @ [ProcessingAppFolder app_folder,
                               (if r = None then CopiedAppFolder app_folder
                                else ErrorCopying app_folder)])))))"

text \<open>
  Lines 103-104: \<^verbatim>\<open>for item in self.scripts_path.iterdir()\<close>, taking the items with
  \<^verbatim>\<open>item.is_dir() and not item.name.startswith('.')\<close>.
\<close>

fun copy_loop ::
  "host \<Rightarrow> yaml \<Rightarrow> entries \<Rightarrow> entries \<times> nat \<times> msg list
     \<Rightarrow> exn option \<times> entries \<times> nat \<times> msg list" where
  "copy_loop h v [] s = (None, s)"
| "copy_loop h v ((name, File c) # items) s = copy_loop h v items s"
| "copy_loop h v ((name, Dir src) # items) s =
     (if hidden name then copy_loop h v items s
      else (case copy_app h v name src s of
              (Some e, s') \<Rightarrow> (Some e, s')
            | (None, s') \<Rightarrow> copy_loop h v items s'))"

text \<open>
  The app folders of a scripts directory: the items the loop takes, in its order, each
  with its entries.
\<close>

fun app_folders :: "entries \<Rightarrow> (string \<times> entries) list" where
  "app_folders [] = []"
| "app_folders ((name, File c) # items) = app_folders items"
| "app_folders ((name, Dir src) # items) =
     (if hidden name then app_folders items else (name, src) # app_folders items)"

text \<open>
  What a loop without faults leaves in the user folder: the entries that are no app
  folder of the source, as they were, followed by the walked copy of every app folder;
  and the number of files it counts.
\<close>

definition mirrored :: "yaml \<Rightarrow> entries \<Rightarrow> entries" where
  "mirrored v items =
     map (\<lambda>(name, src). (name, Dir (fst (snd (walk_app v src))))) (app_folders items)"

definition countable_files :: "yaml \<Rightarrow> entries \<Rightarrow> nat" where
  "countable_files v items =
     sum_list (map (\<lambda>(name, src). snd (snd (walk_app v src))) (app_folders items))"

definition kept :: "entries \<Rightarrow> entries \<Rightarrow> entries" where
  "kept items ud = filter (\<lambda>e. fst e \<notin> fst ` set (app_folders items)) ud"

text \<open>
  Lines 90-132 of \<^verbatim>\<open>copy_scripts_to_repo\<close>, for a scripts path that exists: the
  value of \<^verbatim>\<open>copied_files\<close> at line 132, or the exception that left the method.
\<close>

definition mirror_scripts ::
  "config \<Rightarrow> host \<Rightarrow> node \<Rightarrow> world \<Rightarrow> (exn + nat) \<times> world" where
  "mirror_scripts cfg h root w =
     (let u = current_user h in
      case mkdir_exist_ok u (repo w) of
        Inl e \<Rightarrow> (Inl e, w)
      | Inr es \<Rightarrow>
          (let w1 = say (CopyingUnder u) (w\<lparr>repo := Some (Dir es)\<rparr>) in
           case excluded_extensions cfg of
             Inl e \<Rightarrow> (Inl e, w1)
           | Inr v \<Rightarrow>
               (case root of
                  File c \<Rightarrow> (Inl NotADirectoryError, w1)
                | Dir items \<Rightarrow>
                    (case copy_loop h v items (user_dir es u, 0, []) of
                       (r, ud, copied_files, out) \<Rightarrow>
                         (let w2 = w1\<lparr>repo := Some (Dir (AList.update u (Dir ud) es)),
                                      messages := messages w1 @ out\<rparr> in
                          case r of
                            Some e \<Rightarrow> (Inl e, w2)
                          | None \<Rightarrow>
                              (Inr copied_files, say (TotalFilesCopied copied_files) w2))))))"

text \<open>Lines 83-133, \<^verbatim>\<open>copy_scripts_to_repo\<close>.\<close>

definition copy_scripts_to_repo :: "config \<Rightarrow> host \<Rightarrow> world \<Rightarrow> (exn + bool) \<times> world" where
  "copy_scripts_to_repo cfg h w =
     (case scripts w of
        None \<Rightarrow> (Inr False, say ScriptsDirNotFound w)
      | Some root \<Rightarrow>
          (case mirror_scripts cfg h root w of
             (Inl e, w') \<Rightarrow> (Inl e, w')
           | (Inr copied_files, w') \<Rightarrow> (Inr (copied_files > 0), w')))"

text \<open>Line 145, \<^verbatim>\<open>not output.strip()\<close>: the output is only white space.\<close>

definition isspace :: "char \<Rightarrow> bool" where
  "isspace c = (c \<in> set [CHR '' '', CHR 0x09, CHR 0x0A, CHR 0x0B, CHR 0x0C, CHR 0x0D,
                         CHR 0x1C, CHR 0x1D, CHR 0x1E, CHR 0x1F])"

definition blank :: "string \<Rightarrow> bool" where
  "blank output = list_all isspace output"

text \<open>Line 158, the commit message.\<close>

definition commit_message :: "host \<Rightarrow> string" where
  "commit_message h = ''Auto-sync scripts from '' @ current_user h @ '' at '' @ now h"

text \<open>Lines 135-174, \<^verbatim>\<open>commit_and_push_changes\<close>.\<close>

definition commit_and_push_changes ::
  "config \<Rightarrow> host \<Rightarrow> world \<Rightarrow> (exn + bool) \<times> world" where
  "commit_and_push_changes cfg h w =
     (case run_git_command h GitStatus False w of
        (Inl e, w1) \<Rightarrow> (Inl e, w1)
      | (Inr (success, output), w1) \<Rightarrow>
          if \<not> success then (Inr False, say (StatusError output) w1)
          else if blank output then (Inr True, say NoChangesToCommit w1)
          else
            (case run_git_command h GitAdd False (say ChangesDetected w1) of
               (Inl e, w2) \<Rightarrow> (Inl e, w2)
             | (Inr (success, output), w2) \<Rightarrow>
                 if \<not> success then (Inr False, say (AddError output) w2)
                 else
                   (case run_git_command h (GitCommit (commit_message h)) False w2 of
                      (Inl e, w3) \<Rightarrow> (Inl e, w3)
                    | (Inr (success, output), w3) \<Rightarrow>
                        if \<not> success then (Inr False, say (CommitError output) w3)
                        else
                          (case run_git_command h (GitPush (branch_name cfg)) False
                                  (say ChangesCommitted w3) of
                             (Inl e, w4) \<Rightarrow> (Inl e, w4)
                           | (Inr (success, output), w4) \<Rightarrow>
                               if \<not> success then (Inr False, say (PushError output) w4)
                               else (Inr True, say ChangesPushed w4)))))"

text \<open>
  Lines 185-196 of \<^verbatim>\<open>sync_to_git\<close>: steps 2 and 3, run once the repository is set up.
\<close>

definition copy_then_publish :: "config \<Rightarrow> host \<Rightarrow> world \<Rightarrow> (exn + bool) \<times> world" where
  "copy_then_publish cfg h w =
     (case copy_scripts_to_repo cfg h w of
        (Inl e, w2) \<Rightarrow> (Inl e, w2)
      | (Inr copied, w2) \<Rightarrow>
          if \<not> copied then (Inr True, say NoScriptsToSync w2)
          else
            (case commit_and_push_changes cfg h w2 of
               (Inl e, w3) \<Rightarrow> (Inl e, w3)
             | (Inr pushed, w3) \<Rightarrow>
                 if \<not> pushed then (Inr False, w3)
                 else (Inr True, say SyncCompleted w3)))"

text \<open>
  Lines 176-196, \<^verbatim>\<open>sync_to_git\<close>: \<open>Inr True\<close> and \<open>Inr False\<close> are the returned
  verdict, \<open>Inl e\<close> an exception that reaches \<^verbatim>\<open>main\<close>.
\<close>

definition sync_to_git :: "config \<Rightarrow> host \<Rightarrow> world \<Rightarrow> (exn + bool) \<times> world" where
  "sync_to_git cfg h w =
     (case setup_git_repo cfg h w of
        (Inl e, w1) \<Rightarrow> (Inl e, w1)
      | (Inr ready, w1) \<Rightarrow>
          if \<not> ready then (Inr False, w1)
          else copy_then_publish cfg h w1)"

text \<open>The commands of the Change Publisher: status, stage, commit, push.\<close>

fun publisher_cmd :: "git_cmd \<Rightarrow> bool" where
  "publisher_cmd GitPull = False"
| "publisher_cmd (GitClone url path) = False"
| "publisher_cmd GitStatus = True"
| "publisher_cmd GitAdd = True"
| "publisher_cmd (GitCommit m) = True"
| "publisher_cmd (GitPush b) = True"

text \<open>The node at a path below the repository path, if any.\<close>

definition at_path :: "world \<Rightarrow> string list \<Rightarrow> node option" where
  "at_path w p = (case repo w of None \<Rightarrow> None | Some t \<Rightarrow> lookup_path t p)"

subsection \<open>Fixtures\<close>

text \<open>
  A configuration without a \<^verbatim>\<open>sync\<close> key, a host on which nothing fails, and the
  scripts directory of the specification's first scenario (\<^verbatim>\<open>backup/\<close> with three
  files, \<^verbatim>\<open>deploy/\<close> with two files of which one is a \<^verbatim>\<open>.tmp\<close>), next to a hidden
  folder and a plain file. The working copy already holds a folder of another user and
  an older copy of \<^verbatim>\<open>backup/\<close> with a file the source no longer has.
\<close>

definition ex_cfg :: config where
  "ex_cfg = \<lparr> git = \<lparr> repository_url = ''https://example.org/scripts.git'',
                      local_repo_path = ''~/scripts-git-repo'',
                      branch = None \<rparr>,
              sync = None \<rparr>"

text \<open>
  Two more configurations: the key \<^verbatim>\<open>sync\<close> with nothing under it, which YAML loads
  as \<^verbatim>\<open>None\<close>, and a \<^verbatim>\<open>sync\<close> section whose key \<^verbatim>\<open>exclude_extensions\<close> has
  nothing under it.
\<close>

definition ex_cfg_null_sync :: config where
  "ex_cfg_null_sync = ex_cfg\<lparr>sync := Some YNull\<rparr>"

definition ex_cfg_null_key :: config where
  "ex_cfg_null_key = ex_cfg\<lparr>sync := Some (YMap [(''exclude_extensions'', YNull)])\<rparr>"

definition ex_host :: host where
  "ex_host = \<lparr> env_USER = Some ''alice'', env_USERNAME = None,
               now = ''2024-01-01 00:00:00'', faults = (\<lambda>name. NoFault),
               parent_exists = True, pull_outcome = UpToDate, clone_outcome = Cloned [],
               status_err = None, add_err = None, commit_err = None, push_err = None \<rparr>"

definition ex_scripts :: entries where
  "ex_scripts =
     [(''backup'', Dir [(''a.sh'', File ''1''), (''b.sh'', File ''2''), (''c.sh'', File ''3'')]),
      (''deploy'', Dir [(''run.sh'', File ''x''), (''junk.tmp'', File ''y'')]),
      (''.cache'', Dir [(''z'', File [])]),
      (''README'', File ''r'')]"

definition ex_world :: world where
  "ex_world =
     \<lparr> scripts = Some (Dir ex_scripts),
       repo = Some (Dir [(''bob'', Dir [(''backup'', Dir [(''old.sh'', File ''o'')])]),
                         (''alice'', Dir [(''backup'', Dir [(''stray.sh'', File ''s'')])])]),
       head = Some (Dir [(''bob'', Dir [(''backup'', Dir [(''old.sh'', File ''o'')])]),
                         (''alice'', Dir [(''backup'', Dir [(''stray.sh'', File ''s'')])])]),
       staged = None, trace = [], messages = [] \<rparr>"

section \<open>Properties\<close>

subsection \<open>The exclusion filter\<close>

lemma endswith_iff_suffix: "endswith s suf \<longleftrightarrow> suffix suf s"
proof
  assume "endswith s suf"
  then have "s = take (length s - length suf) s @ suf"
    by (metis append_take_drop_id endswith_def)
  then show "suffix suf s"
    by (metis suffixI)
next
  assume "suffix suf s"
  then obtain p where "s = p @ suf"
    by (auto simp: suffix_def)
  then show "endswith s suf"
    by (simp add: endswith_def)
qed

lemma excluded_iff: "excluded f S \<longleftrightarrow> (\<exists>s \<in> set S. \<exists>p. f = p @ s)"
  by (simp add: excluded_def list_ex_iff endswith_iff_suffix suffix_def)

subsection \<open>The walk\<close>

lemma walk_keys: "n \<in> fst ` set (fst (walk X es)) \<Longrightarrow> n \<in> fst ` set es"
proof (induction X es rule: walk.induct)
  case (1 exts)
  then show ?case by simp
next
  case (2 exts m c es)
  then show ?case
    by (cases "walk exts es") (auto split: if_splits)
next
  case (3 exts m ds es)
  obtain a b where a: "walk exts ds = (a, b)" by force
  obtain aa ba where aa: "walk exts es = (aa, ba)" by force
  have ih: "n \<in> fst ` set aa \<Longrightarrow> n \<in> fst ` set es"
    using "3.IH"(2) [OF a [symmetric] refl] aa by simp
  from "3.prems" a aa have "n = m \<or> n \<in> fst ` set aa" by auto
  with ih show ?case by auto
qed

lemma map_of_walk_File:
  "map_of es n = Some (File c) \<Longrightarrow> \<not> excluded n X \<Longrightarrow> map_of (fst (walk X es)) n = Some (File c)"
  by (induction X es rule: walk.induct) (auto split: prod.splits if_splits)

lemma map_of_walk_Dir:
  "map_of es n = Some (Dir ds) \<Longrightarrow> map_of (fst (walk X es)) n = Some (Dir (fst (walk X ds)))"
  by (induction X es rule: walk.induct) (auto split: prod.splits if_splits)

lemma walk_keeps_file:
  "lookup_path (Dir es) p = Some (File c) \<Longrightarrow> \<not> excluded (last p) X
     \<Longrightarrow> lookup_path (Dir (fst (walk X es))) p = Some (File c)"
proof (induction p arbitrary: es)
  case Nil
  then show ?case by simp
next
  case (Cons n p)
  show ?case
  proof (cases p)
    case Nil
    with Cons.prems show ?thesis
      by (auto simp: map_of_walk_File split: option.splits)
  next
    case (Cons m q)
    with Cons.prems obtain ds where ds: "map_of es n = Some (Dir ds)" and
       l: "lookup_path (Dir ds) p = Some (File c)"
      by (cases "map_of es n") (auto split: node.splits elim: lookup_path.elims)
    from Cons.prems Cons have "\<not> excluded (last p) X" by simp
    with Cons.IH l have "lookup_path (Dir (fst (walk X ds))) p = Some (File c)" by blast
    with ds show ?thesis by (simp add: map_of_walk_Dir)
  qed
qed

lemma map_of_walk_None:
  "map_of es n = None \<Longrightarrow> map_of (fst (walk X es)) n = None"
  using walk_keys [of n X es] by (metis map_of_eq_None_iff)

lemma map_of_walk_excluded:
  "valid_entries es \<Longrightarrow> map_of es n = Some (File c) \<Longrightarrow> excluded n X
     \<Longrightarrow> map_of (fst (walk X es)) n = None"
proof (induction X es rule: walk.induct)
  case (1 exts)
  then show ?case by simp
next
  case (2 exts m c' es)
  then show ?case
    using map_of_walk_None [of es n exts]
    by (auto split: prod.splits if_splits simp: map_of_eq_None_iff)
next
  case (3 exts m ds es)
  then show ?case
    by (auto split: prod.splits if_splits)
qed

lemma valid_entries_sub:
  "valid_entries es \<Longrightarrow> map_of es n = Some (Dir ds) \<Longrightarrow> valid_entries ds"
  by (induction es rule: valid_entries.induct) (auto split: if_splits)

lemma walk_no_new_path:
  "valid_entries es \<Longrightarrow> lookup_path (Dir es) p = None
     \<Longrightarrow> lookup_path (Dir (fst (walk X es))) p = None"
proof (induction p arbitrary: es)
  case Nil
  then show ?case by simp
next
  case (Cons n p)
  show ?case
  proof (cases "map_of es n")
    case None
    then show ?thesis by (simp add: map_of_walk_None)
  next
    case (Some t)
    show ?thesis
    proof (cases t)
      case (File c)
      with Some Cons.prems have "p \<noteq> []" by auto
      then obtain m q where p: "p = m # q" by (cases p) auto
      show ?thesis
      proof (cases "excluded n X")
        case True
        with Some File Cons.prems show ?thesis by (simp add: map_of_walk_excluded)
      next
        case False
        with Some File p show ?thesis by (simp add: map_of_walk_File)
      qed
    next
      case (Dir ds)
      with Some Cons.prems have "lookup_path (Dir ds) p = None" by simp
      moreover from Some Dir Cons.prems have "valid_entries ds" by (auto dest: valid_entries_sub)
      ultimately have "lookup_path (Dir (fst (walk X ds))) p = None" using Cons.IH by blast
      with Some Dir show ?thesis by (simp add: map_of_walk_Dir)
    qed
  qed
qed

subsection \<open>Running git commands\<close>

lemma git_tool_failed: "git_tool h cmd w = ((False, e), w') \<Longrightarrow> w' = w"
  by (cases cmd) (auto split: pull_outcome.splits clone_outcome.splits option.splits)

lemma git_tool_frame:
  "git_tool h cmd w = (r, w') \<Longrightarrow>
     trace w' = trace w \<and> scripts w' = scripts w \<and> messages w' = messages w"
  by (cases cmd) (auto split: pull_outcome.splits clone_outcome.splits option.splits)

lemma run_git_command_raised: "run_git_command h cmd b w = (Inl e, w') \<Longrightarrow> w' = w"
  by (auto simp: run_git_command_def Let_def split: if_splits option.splits node.splits prod.splits)

lemma run_git_command_ran:
  "run_git_command h cmd b w = (Inr r, w') \<Longrightarrow>
     git_tool h cmd (w\<lparr>trace := trace w @ [cmd]\<rparr>) = (r, w')"
  by (auto simp: run_git_command_def Let_def split: if_splits option.splits node.splits prod.splits)

lemma run_git_command_frame:
  assumes "run_git_command h cmd b w = (Inr r, w')"
  shows "trace w' = trace w @ [cmd]" and "scripts w' = scripts w" and "messages w' = messages w"
  using git_tool_frame [OF run_git_command_ran [OF assms]] by simp_all

lemma run_git_command_failed:
  assumes "run_git_command h cmd b w = (Inr (False, e), w')"
  shows "w' = w\<lparr>trace := trace w @ [cmd]\<rparr>"
  using git_tool_failed [OF run_git_command_ran [OF assms]] .

lemma say_simps [simp]:
  "scripts (say m w) = scripts w" "repo (say m w) = repo w" "head (say m w) = head w"
  "staged (say m w) = staged w" "trace (say m w) = trace w"
  "messages (say m w) = messages w @ [m]"
  by (simp_all add: say_def)

lemma setup_git_repo_trace:
  "setup_git_repo cfg h w = (r, w1) \<Longrightarrow>
     filter publisher_cmd (trace w1) = filter publisher_cmd (trace w)"
proof (cases "repo w")
  case None
  assume a: "setup_git_repo cfg h w = (r, w1)"
  let ?c = "GitClone (repository_url (git cfg)) (local_repo_path (git cfg))"
  obtain x w' where x: "run_git_command h ?c True (say CloningRepository w) = (x, w')"
    by force
  show ?thesis
  proof (cases x)
    case (Inl e)
    with x a None run_git_command_raised [of h ?c True "say CloningRepository w" e w']
    show ?thesis by (auto simp: setup_git_repo_def)
  next
    case (Inr p)
    with x run_git_command_frame(1) [of h ?c True "say CloningRepository w" p w']
    have "trace w' = trace w @ [?c]" by simp
    with x a None Inr show ?thesis
      by (cases p) (auto simp: setup_git_repo_def split: if_splits)
  qed
next
  case (Some t)
  assume a: "setup_git_repo cfg h w = (r, w1)"
  obtain x w' where x: "run_git_command h GitPull False (say UsingExistingRepo w) = (x, w')"
    by force
  show ?thesis
  proof (cases x)
    case (Inl e)
    with x a Some run_git_command_raised [of h GitPull False "say UsingExistingRepo w" e w']
    show ?thesis by (auto simp: setup_git_repo_def)
  next
    case (Inr p)
    with x run_git_command_frame(1) [of h GitPull False "say UsingExistingRepo w" p w']
    have "trace w' = trace w @ [GitPull]" by simp
    with x a Some Inr show ?thesis
      by (cases p) (auto simp: setup_git_repo_def split: if_splits)
  qed
qed

lemma mirror_scripts_frame:
  assumes "mirror_scripts cfg h root w = (r, w')"
  shows "trace w' = trace w" and "head w' = head w" and "staged w' = staged w"
    and "scripts w' = scripts w"
  using assms
  by (auto simp: mirror_scripts_def Let_def say_def
      split: sum.splits node.splits prod.splits option.splits)

subsection \<open>The copy loop\<close>

lemma lookup_path_append:
  "lookup_path t (p @ q) = (case lookup_path t p of None \<Rightarrow> None | Some t' \<Rightarrow> lookup_path t' q)"
proof (induction p arbitrary: t)
  case Nil
  then show ?case by simp
next
  case (Cons n p)
  then show ?case
    by (cases t) (auto split: option.splits)
qed

lemma at_path_below:
  "at_path w (p @ q) = (case at_path w p of None \<Rightarrow> None | Some t \<Rightarrow> lookup_path t q)"
  by (simp add: at_path_def lookup_path_append split: option.splits)

lemma walk_app_suffixes: "suffixes_of v = Inr exts \<Longrightarrow> walk_app v src = (None, walk exts src)"
  by (simp add: walk_app_def)

lemma walk_app_keeps_file:
  assumes "lookup_path (Dir src) p = Some (File c)"
    and "\<forall>S. suffixes_of v = Inr S \<longrightarrow> \<not> excluded (last p) S"
  shows "lookup_path (Dir (fst (snd (walk_app v src)))) p = Some (File c)"
proof (cases "suffixes_of v")
  case (Inl e)
  with assms(1) show ?thesis by (simp add: walk_app_def)
next
  case (Inr exts)
  with assms(2) have "\<not> excluded (last p) exts" by simp
  from walk_keeps_file [OF assms(1) this] Inr show ?thesis by (simp add: walk_app_def)
qed

lemma walk_app_no_new_path:
  assumes "valid_entries src" and "lookup_path (Dir src) p = None"
  shows "lookup_path (Dir (fst (snd (walk_app v src)))) p = None"
proof (cases "suffixes_of v")
  case (Inl e)
  with assms(2) show ?thesis by (simp add: walk_app_def)
next
  case (Inr exts)
  with walk_no_new_path [OF assms, of exts] show ?thesis by (simp add: walk_app_def)
qed

lemma copy_app_other:
  assumes "copy_app h v n src s = (r, s')" and "a \<noteq> n"
  shows "map_of (fst s') a = map_of (fst s) a"
proof -
  obtain ud c out where s: "s = (ud, c, out)" by (cases s) auto
  have d: "map_of (AList.delete n ud) a = map_of ud a"
    using assms(2) by (simp add: delete_conv')
  have u: "\<And>x al. map_of (AList.update n x al) a = map_of al a"
    using assms(2) by (simp add: update_conv')
  have l: "\<And>left al. map_of (leave n left al) a = map_of al a"
    using assms(2) by (simp add: leave_def update_conv' delete_conv' split: option.splits)
  from assms(1) show ?thesis
    unfolding s copy_app_def rmtree_existing_def
    by (auto simp: d u l split: option.splits fault.splits node.splits prod.splits)
qed

lemma copy_app_self:
  assumes "copy_app h v a src s = (None, s')" and "faults h a = NoFault"
  shows "map_of (fst s') a = Some (Dir (fst (snd (walk_app v src))))"
proof -
  obtain ud c out where s: "s = (ud, c, out)" by (cases s) auto
  from assms show ?thesis
    unfolding s copy_app_def rmtree_existing_def
    by (auto simp: update_conv' split: option.splits node.splits prod.splits)
qed

lemma copy_loop_other:
  "copy_loop h v items s = (r, s') \<Longrightarrow> a \<notin> fst ` set items
     \<Longrightarrow> map_of (fst s') a = map_of (fst s) a"
proof (induction h v items s rule: copy_loop.induct)
  case (1 h v s)
  then show ?case by simp
next
  case (2 h v name c items s)
  then show ?case by simp
next
  case (3 h v name src items s)
  show ?case
  proof (cases "hidden name")
    case True
    with 3 show ?thesis by simp
  next
    case False
    obtain e s1 where c: "copy_app h v name src s = (e, s1)" by (metis prod.collapse)
    from "3.prems"(2) have ne: "a \<noteq> name" by auto
    note o = copy_app_other [OF c ne]
    show ?thesis
    proof (cases e)
      case None
      with False c "3.prems" have l: "copy_loop h v items s1 = (r, s')" by simp
      from "3.prems"(2) have "a \<notin> fst ` set items" by auto
      from "3.IH"(2) [OF False c [symmetric] None l this] o
      show ?thesis by simp
    next
      case (Some x)
      with False c "3.prems" o show ?thesis by auto
    qed
  qed
qed

lemma copy_loop_result:
  "copy_loop h v items s = (None, s') \<Longrightarrow> distinct (map fst items)
     \<Longrightarrow> (a, Dir src) \<in> set items \<Longrightarrow> \<not> hidden a \<Longrightarrow> faults h a = NoFault
     \<Longrightarrow> map_of (fst s') a = Some (Dir (fst (snd (walk_app v src))))"
proof (induction h v items s rule: copy_loop.induct)
  case (1 h v s)
  then show ?case by simp
next
  case (2 h v name c items s)
  then show ?case by auto
next
  case (3 h v name src' items s)
  show ?case
  proof (cases "hidden name")
    case True
    with 3 show ?thesis by auto
  next
    case False
    note nh = False
    obtain e s1 where c: "copy_app h v name src' s = (e, s1)" by (metis prod.collapse)
    with False "3.prems"(1) have e: "e = None" and l: "copy_loop h v items s1 = (None, s')"
      by (auto split: option.splits)
    show ?thesis
    proof (cases "a = name")
      case True
      with "3.prems"(2,3) have src: "src' = src" and "a \<notin> fst ` set items"
        by (auto simp: rev_image_eqI)
      with copy_loop_other [OF l] have "map_of (fst s') a = map_of (fst s1) a" by simp
      with copy_app_self [OF c [unfolded e]] True src "3.prems"(5) show ?thesis by simp
    next
      case ne: False
      with "3.prems" have "(a, Dir src) \<in> set items" and "distinct (map fst items)" by auto
      from "3.IH"(2) [OF nh c [symmetric] e l this(2) this(1) "3.prems"(4,5)]
      show ?thesis by simp
    qed
  qed
qed

lemma mkdir_exist_ok_Inr:
  assumes "mkdir_exist_ok u r = Inr es"
  shows "\<exists>es0. r = Some (Dir es0) \<and> (\<forall>B. B \<noteq> u \<longrightarrow> map_of es B = map_of es0 B)"
  using assms
  by (auto simp: mkdir_exist_ok_def update_conv' split: option.splits node.splits)

lemma mirror_scripts_repo:
  assumes "mirror_scripts cfg h root w = (r, w')"
  shows "repo w' = repo w \<or>
         (\<exists>es0 es. repo w = Some (Dir es0) \<and> repo w' = Some (Dir es) \<and>
             (\<forall>B. B \<noteq> current_user h \<longrightarrow> map_of es B = map_of es0 B))"
proof (cases "mkdir_exist_ok (current_user h) (repo w)")
  case (Inl e)
  with assms show ?thesis by (simp add: mirror_scripts_def)
next
  case (Inr es)
  from mkdir_exist_ok_Inr [OF Inr] obtain es0 where
    es0: "repo w = Some (Dir es0)"
    and same: "\<forall>B. B \<noteq> current_user h \<longrightarrow> map_of es B = map_of es0 B"
    by blast
  show ?thesis
  proof (cases "excluded_extensions cfg")
    case (Inl e)
    with assms Inr have "repo w' = Some (Dir es)"
      by (auto simp: mirror_scripts_def Let_def)
    with es0 same show ?thesis by blast
  next
    case v: (Inr v)
    show ?thesis
    proof (cases root)
      case (File c)
      with assms Inr v have "repo w' = Some (Dir es)"
        by (auto simp: mirror_scripts_def Let_def)
      with es0 same show ?thesis by blast
    next
      case (Dir items)
      obtain e ud k out where
        l: "copy_loop h v items (user_dir es (current_user h), 0, []) = (e, ud, k, out)"
        by (metis prod.collapse)
      with assms Inr v Dir
      have "repo w' = Some (Dir (AList.update (current_user h) (Dir ud) es))"
        by (auto simp: mirror_scripts_def Let_def split: option.splits)
      moreover have "\<forall>B. B \<noteq> current_user h \<longrightarrow>
          map_of (AList.update (current_user h) (Dir ud) es) B = map_of es0 B"
        using same by (simp add: update_conv')
      ultimately show ?thesis using es0 by blast
    qed
  qed
qed

lemma mirror_scripts_isolation:
  assumes "mirror_scripts cfg h root w = (r, w')" and "B \<noteq> current_user h"
  shows "at_path w' (B # p) = at_path w (B # p)"
  using mirror_scripts_repo [OF assms(1)] assms(2)
  by (auto simp: at_path_def)

lemma mirror_scripts_File: "fst (mirror_scripts cfg h (File c) w) \<noteq> Inr k"
  by (auto simp: mirror_scripts_def Let_def split: sum.splits)

lemma mirror_scripts_Inr:
  assumes "mirror_scripts cfg h (Dir items) w = (Inr k, w')"
  shows "\<exists>es v ud out.
           mkdir_exist_ok (current_user h) (repo w) = Inr es \<and>
           excluded_extensions cfg = Inr v \<and>
           copy_loop h v items (user_dir es (current_user h), 0, []) = (None, ud, k, out) \<and>
           repo w' = Some (Dir (AList.update (current_user h) (Dir ud) es))"
proof -
  from assms obtain es where mk: "mkdir_exist_ok (current_user h) (repo w) = Inr es"
    by (cases "mkdir_exist_ok (current_user h) (repo w)") (auto simp: mirror_scripts_def)
  from assms mk obtain v where v: "excluded_extensions cfg = Inr v"
    by (cases "excluded_extensions cfg") (auto simp: mirror_scripts_def Let_def)
  obtain e ud n out where
    l: "copy_loop h v items (user_dir es (current_user h), 0, []) = (e, ud, n, out)"
    by (metis prod.collapse)
  with assms mk v have "e = None" and "n = k"
    and "repo w' = Some (Dir (AList.update (current_user h) (Dir ud) es))"
    by (auto simp: mirror_scripts_def Let_def say_def split: option.splits)
  with mk v l show ?thesis by blast
qed

lemma mirror_scripts_app:
  assumes "mirror_scripts cfg h (Dir items) w = (Inr k, w')"
    and "distinct (map fst items)" and "(a, Dir src) \<in> set items"
    and "\<not> hidden a" and "faults h a = NoFault"
  shows "\<exists>v. excluded_extensions cfg = Inr v \<and>
             at_path w' [current_user h, a] = Some (Dir (fst (snd (walk_app v src))))"
proof -
  from mirror_scripts_Inr [OF assms(1)] obtain es v ud out where
    v: "excluded_extensions cfg = Inr v"
    and l: "copy_loop h v items (user_dir es (current_user h), 0, []) = (None, ud, k, out)"
    and r: "repo w' = Some (Dir (AList.update (current_user h) (Dir ud) es))"
    by blast
  from copy_loop_result [OF l assms(2-5)]
  have "map_of ud a = Some (Dir (fst (snd (walk_app v src))))"
    by simp
  with r have "at_path w' [current_user h, a] = Some (Dir (fst (snd (walk_app v src))))"
    by (simp add: at_path_def update_conv')
  with v show ?thesis by blast
qed

lemma copy_scripts_to_repo_Inr:
  assumes "copy_scripts_to_repo cfg h w = (Inr b, w')" and "scripts w = Some root"
  shows "\<exists>k. mirror_scripts cfg h root w = (Inr k, w')"
  using assms
  by (auto simp: copy_scripts_to_repo_def split: prod.splits sum.splits)

subsection \<open>The copy loop without faults\<close>

lemma update_fresh: "k \<notin> fst ` set al \<Longrightarrow> AList.update k v al = al @ [(k, v)]"
  by (induction al) auto

lemma delete_filter: "AList.delete k al = filter (\<lambda>e. fst e \<noteq> k) al"
  by (induction al) auto

lemma copy_app_no_fault:
  assumes "faults h name = NoFault"
    and "copy_app h v name src (ud, c, out) = (None, ud1, c1, out1)"
  shows "ud1 = filter (\<lambda>e. fst e \<noteq> name) ud @ [(name, Dir (fst (snd (walk_app v src))))]"
    and "c1 = c + snd (snd (walk_app v src))"
proof -
  obtain r es' k where w: "walk_app v src = (r, es', k)" by (metis prod.collapse)
  have f: "name \<notin> fst ` set (AList.delete name ud)"
    by (rule delete_notin_dom)
  have m: "rmtree_existing h name ud = Inr (AList.delete name ud)"
  proof (cases "map_of ud name")
    case None
    then have "name \<notin> fst ` set ud" by (simp add: map_of_eq_None_iff)
    then have "AList.delete name ud = ud" by simp
    with None show ?thesis by (simp add: rmtree_existing_def)
  next
    case (Some t)
    with assms show ?thesis
      by (cases t) (auto simp: rmtree_existing_def copy_app_def)
  qed
  from assms m w have "ud1 = AList.update name (Dir es') (AList.delete name ud)" and "c1 = c + k"
    by (auto simp: copy_app_def)
  with update_fresh [OF f] w
  show "ud1 = filter (\<lambda>e. fst e \<noteq> name) ud @ [(name, Dir (fst (snd (walk_app v src))))]"
    and "c1 = c + snd (snd (walk_app v src))"
    by (simp_all add: delete_filter)
qed

lemma copy_app_no_fault_ok:
  assumes "faults h name = NoFault" and "\<forall>c. map_of ud name \<noteq> Some (File c)"
  shows "fst (copy_app h v name src (ud, c, out)) = None"
  using assms
  by (auto simp: copy_app_def rmtree_existing_def split: option.splits node.splits prod.splits)

lemma app_folders_keys: "fst ` set (app_folders items) \<subseteq> fst ` set items"
  by (induction items rule: app_folders.induct) auto

lemma app_folders_distinct:
  "distinct (map fst items) \<Longrightarrow> distinct (map fst (app_folders items))"
proof (induction items rule: app_folders.induct)
  case 1
  then show ?case by simp
next
  case (2 name c items)
  then show ?case by simp
next
  case (3 name src items)
  then show ?case using app_folders_keys [of items] by auto
qed

lemma copy_loop_closed:
  assumes nf: "\<forall>n. faults h n = NoFault"
  shows "copy_loop h v items (ud, c, out) = (None, ud', c', out')
     \<Longrightarrow> distinct (map fst (app_folders items))
     \<Longrightarrow> ud' = kept items ud @ mirrored v items \<and> c' = c + countable_files v items"
proof (induction items arbitrary: ud c out rule: app_folders.induct)
  case 1
  then show ?case by (simp add: kept_def mirrored_def countable_files_def)
next
  case (2 name c0 items)
  then show ?case by (simp add: kept_def mirrored_def countable_files_def)
next
  case (3 name src items)
  show ?case
  proof (cases "hidden name")
    case True
    with 3 show ?thesis by (simp add: kept_def mirrored_def countable_files_def)
  next
    case False
    obtain e ud1 c1 out1 where a: "copy_app h v name src (ud, c, out) = (e, ud1, c1, out1)"
      by (metis prod.collapse)
    with False "3.prems"(1) have e: "e = None"
      and l: "copy_loop h v items (ud1, c1, out1) = (None, ud', c', out')"
      by (auto split: option.splits)
    from nf have "faults h name = NoFault" by simp
    note s = copy_app_no_fault [OF this a [unfolded e]]
    from False "3.prems"(2) have d: "distinct (map fst (app_folders items))"
      and fresh: "name \<notin> fst ` set (app_folders items)"
      by auto
    from "3.IH"(2) [OF False l d]
    have ih: "ud' = kept items ud1 @ mirrored v items" "c' = c1 + countable_files v items"
      by simp_all
    have "kept items ud1
            = kept ((name, Dir src) # items) ud @ [(name, Dir (fst (snd (walk_app v src))))]"
      using fresh False
      by (auto simp: s(1) kept_def intro: filter_cong)
    with ih s(2) False show ?thesis
      by (simp add: mirrored_def countable_files_def)
  qed
qed

lemma copy_loop_ok:
  assumes nf: "\<forall>n. faults h n = NoFault"
  shows "\<forall>n c. n \<in> fst ` set (app_folders items) \<longrightarrow> map_of ud n \<noteq> Some (File c)
     \<Longrightarrow> fst (copy_loop h v items (ud, c, out)) = None"
proof (induction items arbitrary: ud c out rule: app_folders.induct)
  case 1
  then show ?case by simp
next
  case (2 name c0 items)
  then show ?case by simp
next
  case (3 name src items)
  show ?case
  proof (cases "hidden name")
    case True
    with 3 show ?thesis by simp
  next
    case False
    from nf have f: "faults h name = NoFault" by simp
    from False "3.prems" have "\<forall>c. map_of ud name \<noteq> Some (File c)" by simp
    from copy_app_no_fault_ok [OF f this]
    obtain ud1 c1 out1 where a: "copy_app h v name src (ud, c, out) = (None, ud1, c1, out1)"
      by (metis prod.collapse)
    have "\<forall>n c. n \<in> fst ` set (app_folders items) \<longrightarrow> map_of ud1 n \<noteq> Some (File c)"
    proof (intro allI impI)
      fix n c0
      assume n: "n \<in> fst ` set (app_folders items)"
      show "map_of ud1 n \<noteq> Some (File c0)"
      proof (cases "n = name")
        case True
        with copy_app_self [OF a f] show ?thesis by simp
      next
        case ne: False
        from copy_app_other [OF a ne] have "map_of ud1 n = map_of ud n" by simp
        with n False "3.prems" show ?thesis by simp
      qed
    qed
    from "3.IH"(2) [OF False this] have "fst (copy_loop h v items (ud1, c1, out1)) = None" .
    with False a show ?thesis by simp
  qed
qed

lemma mirrored_keys: "fst ` set (mirrored v items) = fst ` set (app_folders items)"
  by (force simp: mirrored_def)

lemma kept_idem: "kept items (kept items ud @ mirrored v items) = kept items ud"
proof -
  have "filter (\<lambda>e. fst e \<notin> fst ` set (app_folders items)) (mirrored v items) = []"
    using mirrored_keys [of v items] by (auto simp: filter_empty_conv)
  then show ?thesis by (simp add: kept_def)
qed

lemma mirrored_no_file:
  assumes "n \<in> fst ` set (app_folders items)"
  shows "map_of (kept items ud @ mirrored v items) n \<noteq> Some (File c)"
proof
  assume a: "map_of (kept items ud @ mirrored v items) n = Some (File c)"
  from assms have "n \<notin> fst ` set (kept items ud)"
    by (force simp: kept_def)
  then have "map_of (kept items ud) n = None"
    by (simp add: map_of_eq_None_iff)
  with a have "map_of (mirrored v items) n = Some (File c)"
    by (simp add: map_add_def)
  then have "(n, File c) \<in> set (mirrored v items)"
    by (rule map_of_SomeD)
  then show False
    by (auto simp: mirrored_def)
qed

lemma mirror_scripts_idem:
  assumes nf1: "\<forall>n. faults h1 n = NoFault" and nf2: "\<forall>n. faults h2 n = NoFault"
    and u: "current_user h2 = current_user h1"
    and d: "distinct (map fst items)"
    and m: "mirror_scripts cfg h1 (Dir items) w = (Inr k, w1)"
    and r: "repo w2 = repo w1"
  shows "\<exists>w3. mirror_scripts cfg h2 (Dir items) w2 = (Inr k, w3) \<and> repo w3 = repo w1"
proof -
  let ?u = "current_user h1"
  from mirror_scripts_Inr [OF m] obtain es v ud out where
    mk: "mkdir_exist_ok ?u (repo w) = Inr es"
    and v: "excluded_extensions cfg = Inr v"
    and l: "copy_loop h1 v items (user_dir es ?u, 0, []) = (None, ud, k, out)"
    and r1: "repo w1 = Some (Dir (AList.update ?u (Dir ud) es))"
    by blast
  from app_folders_distinct [OF d] have da: "distinct (map fst (app_folders items))" .
  from copy_loop_closed [OF nf1 l da]
  have ud: "ud = kept items (user_dir es ?u) @ mirrored v items"
    and k: "k = countable_files v items"
    by simp_all
  let ?es2 = "AList.update ?u (Dir ud) es"
  have mk2: "mkdir_exist_ok ?u (repo w2) = Inr ?es2"
    using r r1 by (simp add: mkdir_exist_ok_def update_conv')
  have ud2: "user_dir ?es2 ?u = ud"
    by (simp add: user_dir_def update_conv')
  have "\<forall>n c. n \<in> fst ` set (app_folders items) \<longrightarrow> map_of ud n \<noteq> Some (File c)"
    unfolding ud using mirrored_no_file by blast
  from copy_loop_ok [OF nf2 this, of v 0 "[]"]
  obtain ud' k' out' where l2: "copy_loop h2 v items (ud, 0, []) = (None, ud', k', out')"
    by (metis prod.collapse)
  from copy_loop_closed [OF nf2 l2 da]
  have "ud' = kept items ud @ mirrored v items" and k': "k' = countable_files v items"
    by simp_all
  then have ud': "ud' = ud"
    using ud kept_idem by simp
  have "AList.update ?u (Dir ud) ?es2 = ?es2"
    by simp
  with mk2 v ud2 l2 ud' k' k u r1
  have "fst (mirror_scripts cfg h2 (Dir items) w2) = Inr k \<and>
        repo (snd (mirror_scripts cfg h2 (Dir items) w2)) = repo w1"
    by (simp add: mirror_scripts_def Let_def say_def)
  then show ?thesis
    by (metis prod.collapse)
qed

text \<open>The copy on the fixtures: every suffix check and the result of the method.\<close>

lemma ex_excluded:
  "\<not> excluded ''a.sh'' [''.tmp'', ''.log'', ''.bak'']"
  "\<not> excluded ''b.sh'' [''.tmp'', ''.log'', ''.bak'']"
  "\<not> excluded ''c.sh'' [''.tmp'', ''.log'', ''.bak'']"
  "\<not> excluded ''run.sh'' [''.tmp'', ''.log'', ''.bak'']"
  "excluded ''junk.tmp'' [''.tmp'', ''.log'', ''.bak'']"
  "excluded ''run.log'' [''.tmp'', ''.log'', ''.bak'']"
  by (simp_all add: excluded_def endswith_def)

lemma ex_extensions: "excluded_extensions ex_cfg = Inr (YSeq [''.tmp'', ''.log'', ''.bak''])"
  by (simp add: excluded_extensions_def ex_cfg_def)

lemma ex_copy:
  "fst (copy_scripts_to_repo ex_cfg ex_host ex_world) = Inr True"
  by (simp add: copy_scripts_to_repo_def mirror_scripts_def mkdir_exist_ok_def user_dir_def
      current_user_def copy_app_def rmtree_existing_def walk_app_def hidden_def ex_world_def
      ex_host_def ex_scripts_def say_def Let_def ex_extensions ex_excluded)

subsection \<open>Setting up the repository\<close>

text \<open>
  Claim C6. \<^verbatim>\<open>setup_git_repo\<close> has two error policies. When the repository path
  exists and \<^verbatim>\<open>git pull\<close> fails, the method prints a warning and returns
  \<open>True\<close>: the run goes on to the copy and the publication with the working copy, the
  last commit and the scripts as they were. When the path does not exist and
  \<^verbatim>\<open>git clone\<close> fails, the method returns \<open>False\<close> and \<^verbatim>\<open>sync_to_git\<close> returns
  \<open>False\<close> at once: the only command issued is the clone, the only lines printed are
  the two of the clone, and nothing is copied.
\<close>

theorem setup_error_policy:
  "(repo w \<noteq> None \<and>
    run_git_command h GitPull False (say UsingExistingRepo w) = (Inr (False, err), w1) \<longrightarrow>
      setup_git_repo cfg h w = (Inr True, say (PullWarning err) w1) \<and>
      sync_to_git cfg h w = copy_then_publish cfg h (say (PullWarning err) w1) \<and>
      repo w1 = repo w \<and> head w1 = head w \<and> scripts w1 = scripts w) \<and>
   (repo w = None \<and>
    run_git_command h (GitClone (repository_url (git cfg)) (local_repo_path (git cfg))) True
      (say CloningRepository w) = (Inr (False, err), w1) \<longrightarrow>
      sync_to_git cfg h w = (Inr False, say (CloneError err) w1) \<and>
      repo w1 = None \<and> scripts w1 = scripts w \<and>
      trace w1 = trace w @ [GitClone (repository_url (git cfg)) (local_repo_path (git cfg))] \<and>
      messages (say (CloneError err) w1) = messages w @ [CloningRepository, CloneError err])"
proof (intro conjI impI)
  assume a: "repo w \<noteq> None \<and>
    run_git_command h GitPull False (say UsingExistingRepo w) = (Inr (False, err), w1)"
  then have r: "run_git_command h GitPull False (say UsingExistingRepo w) = (Inr (False, err), w1)"
    by simp
  from a show s: "setup_git_repo cfg h w = (Inr True, say (PullWarning err) w1)"
    by (auto simp: setup_git_repo_def)
  then show "sync_to_git cfg h w = copy_then_publish cfg h (say (PullWarning err) w1)"
    by (simp add: sync_to_git_def)
  from run_git_command_failed [OF r]
  show "repo w1 = repo w" and "head w1 = head w" and "scripts w1 = scripts w"
    by simp_all
next
  assume a: "repo w = None \<and>
    run_git_command h (GitClone (repository_url (git cfg)) (local_repo_path (git cfg))) True
      (say CloningRepository w) = (Inr (False, err), w1)"
  then have r: "run_git_command h (GitClone (repository_url (git cfg)) (local_repo_path (git cfg)))
      True (say CloningRepository w) = (Inr (False, err), w1)"
    by simp
  from a have "setup_git_repo cfg h w = (Inr False, say (CloneError err) w1)"
    by (auto simp: setup_git_repo_def)
  then show "sync_to_git cfg h w = (Inr False, say (CloneError err) w1)"
    by (simp add: sync_to_git_def)
  from run_git_command_failed [OF r] a
  show "repo w1 = None" and "scripts w1 = scripts w"
    and "trace w1 = trace w @ [GitClone (repository_url (git cfg)) (local_repo_path (git cfg))]"
    and "messages (say (CloneError err) w1) = messages w @ [CloningRepository, CloneError err]"
    by simp_all
qed

theorem setup_error_policy_witness:
  "fst (setup_git_repo ex_cfg (ex_host\<lparr>pull_outcome := PullFailed ''unreachable''\<rparr>) ex_world)
     = Inr True \<and>
   fst (sync_to_git ex_cfg (ex_host\<lparr>clone_outcome := CloneFailed ''denied''\<rparr>)
          (ex_world\<lparr>repo := None\<rparr>)) = Inr False"
proof -
  have p: "repo ex_world \<noteq> None \<and>
      run_git_command (ex_host\<lparr>pull_outcome := PullFailed ''unreachable''\<rparr>) GitPull False
        (say UsingExistingRepo ex_world)
      = (Inr (False, ''unreachable''), (say UsingExistingRepo ex_world)\<lparr>trace := [GitPull]\<rparr>)"
    by (simp add: run_git_command_def ex_world_def ex_host_def say_def)
  have c: "repo (ex_world\<lparr>repo := None\<rparr>) = None \<and>
      run_git_command (ex_host\<lparr>clone_outcome := CloneFailed ''denied''\<rparr>)
        (GitClone (repository_url (git ex_cfg)) (local_repo_path (git ex_cfg))) True
        (say CloningRepository (ex_world\<lparr>repo := None\<rparr>))
      = (Inr (False, ''denied''),
         (say CloningRepository (ex_world\<lparr>repo := None\<rparr>))
           \<lparr>trace := [GitClone (repository_url (git ex_cfg)) (local_repo_path (git ex_cfg))]\<rparr>)"
    by (simp add: run_git_command_def ex_world_def ex_host_def say_def)
  from setup_error_policy [THEN conjunct1, THEN mp, OF p]
  have 1: "fst (setup_git_repo ex_cfg (ex_host\<lparr>pull_outcome := PullFailed ''unreachable''\<rparr>)
                  ex_world) = Inr True"
    by simp
  from setup_error_policy [THEN conjunct2, THEN mp, OF c]
  have 2: "fst (sync_to_git ex_cfg (ex_host\<lparr>clone_outcome := CloneFailed ''denied''\<rparr>)
          (ex_world\<lparr>repo := None\<rparr>)) = Inr False"
    by simp
  from 1 2 show ?thesis by (rule conjI)
qed

subsection \<open>Nothing to sync\<close>

text \<open>
  Claim C4. Whenever the copy ends with \<^verbatim>\<open>copied_files\<close> equal to 0, the run returns
  \<open>True\<close> after printing that there is nothing to sync, and none of the commands of
  \<^verbatim>\<open>commit_and_push_changes\<close> (status, add, commit, push) is issued in that run.
\<close>

theorem zero_copied_short_circuit:
  assumes "setup_git_repo cfg h w = (Inr True, w1)"
    and "scripts w1 = Some root"
    and "mirror_scripts cfg h root w1 = (Inr 0, w2)"
  shows "sync_to_git cfg h w = (Inr True, say NoScriptsToSync w2) \<and>
         filter publisher_cmd (trace (say NoScriptsToSync w2)) = filter publisher_cmd (trace w)"
proof
  from assms show "sync_to_git cfg h w = (Inr True, say NoScriptsToSync w2)"
    by (simp add: sync_to_git_def copy_then_publish_def copy_scripts_to_repo_def)
  from mirror_scripts_frame(1) [OF assms(3)] setup_git_repo_trace [OF assms(1)]
  show "filter publisher_cmd (trace (say NoScriptsToSync w2)) = filter publisher_cmd (trace w)"
    by simp
qed

theorem zero_copied_short_circuit_witness:
  "fst (sync_to_git ex_cfg ex_host
          (ex_world\<lparr>scripts := Some (Dir [(''logs'', Dir [(''run.log'', File ''x'')])])\<rparr>))
     = Inr True \<and>
   filter publisher_cmd
     (trace (snd (sync_to_git ex_cfg ex_host
        (ex_world\<lparr>scripts := Some (Dir [(''logs'', Dir [(''run.log'', File ''x'')])])\<rparr>)))) = []"
proof -
  let ?root = "Dir [(''logs'', Dir [(''run.log'', File ''x'')])]"
  let ?w = "ex_world\<lparr>scripts := Some ?root\<rparr>"
  let ?w1 = "?w\<lparr>trace := [GitPull], messages := [UsingExistingRepo]\<rparr>"
  have 1: "setup_git_repo ex_cfg ex_host ?w = (Inr True, ?w1)"
    by (simp add: setup_git_repo_def run_git_command_def ex_world_def ex_host_def say_def)
  have 2: "scripts ?w1 = Some ?root"
    by simp
  have "fst (mirror_scripts ex_cfg ex_host ?root ?w1) = Inr 0"
    by (simp add: mirror_scripts_def mkdir_exist_ok_def user_dir_def current_user_def
        copy_app_def rmtree_existing_def walk_app_def hidden_def ex_world_def ex_host_def
        say_def Let_def ex_extensions ex_excluded)
  then have 3: "mirror_scripts ex_cfg ex_host ?root ?w1
                  = (Inr 0, snd (mirror_scripts ex_cfg ex_host ?root ?w1))"
    by (metis prod.collapse)
  from zero_copied_short_circuit [OF 1 2 3]
  have "fst (sync_to_git ex_cfg ex_host ?w) = Inr True"
    and "filter publisher_cmd (trace (snd (sync_to_git ex_cfg ex_host ?w)))
           = filter publisher_cmd (trace ?w)"
    by simp_all
  moreover have "trace ?w = []"
    by (simp add: ex_world_def)
  ultimately show ?thesis
    by simp
qed

subsection \<open>A failing commit\<close>

lemma run_status:
  assumes "run_git_command h GitStatus False w = (Inr (True, out), w1)"
  shows "w1 = w\<lparr>trace := trace w @ [GitStatus]\<rparr>"
  using run_git_command_ran [OF assms] by (auto split: option.splits)

lemma run_add:
  assumes "run_git_command h GitAdd False w = (Inr (True, out), w1)"
  shows "w1 = w\<lparr>trace := trace w @ [GitAdd], staged := repo w\<rparr>"
  using run_git_command_ran [OF assms] by (auto split: option.splits)

text \<open>
  Claim C2, as the specification states it, asks for a successful no-op when the status
  reports differences and the commit then reports that there is nothing to commit. The
  program has no such case: \<^verbatim>\<open>run_git_command\<close> only tells a zero exit status from a
  non-zero one, and lines 160-162 return \<open>False\<close> for every failing commit. On the
  fixture below the status output is not blank, the commit fails with git's
  nothing-to-commit message, and the method returns \<open>False\<close>.
\<close>

theorem nothing_to_commit_counterexample:
  "fst (run_git_command (ex_host\<lparr>commit_err := Some ''nothing to commit, working tree clean''\<rparr>)
          GitStatus False (ex_world\<lparr>head := None\<rparr>)) = Inr (True, ''?? changed'') \<and>
   \<not> blank ''?? changed'' \<and>
   commit_err (ex_host\<lparr>commit_err := Some ''nothing to commit, working tree clean''\<rparr>)
     = Some ''nothing to commit, working tree clean'' \<and>
   fst (commit_and_push_changes ex_cfg
          (ex_host\<lparr>commit_err := Some ''nothing to commit, working tree clean''\<rparr>)
          (ex_world\<lparr>head := None\<rparr>)) = Inr False"
  by (simp add: commit_and_push_changes_def run_git_command_def porcelain_def blank_def
      isspace_def ex_world_def ex_host_def say_def)

text \<open>
  Claim C2, amended. In \<^verbatim>\<open>commit_and_push_changes\<close>, when the status query reports
  differences, staging succeeds and the commit fails for any reason, nothing-to-commit
  included, the method prints the commit error and returns \<open>False\<close>; the commands
  issued are status, add and commit (no push), and the last commit is unchanged.
\<close>

theorem commit_failure_is_fatal:
  assumes "run_git_command h GitStatus False w = (Inr (True, out), w1)"
    and "\<not> blank out"
    and "run_git_command h GitAdd False (say ChangesDetected w1) = (Inr (True, out2), w2)"
    and "run_git_command h (GitCommit (commit_message h)) False w2 = (Inr (False, err), w3)"
  shows "commit_and_push_changes cfg h w = (Inr False, say (CommitError err) w3) \<and>
         trace w3 = trace w @ [GitStatus, GitAdd, GitCommit (commit_message h)] \<and>
         head w3 = head w"
proof (intro conjI)
  from assms show "commit_and_push_changes cfg h w = (Inr False, say (CommitError err) w3)"
    by (simp add: commit_and_push_changes_def)
  from run_status [OF assms(1)] run_add [OF assms(3)] run_git_command_failed [OF assms(4)]
  show "trace w3 = trace w @ [GitStatus, GitAdd, GitCommit (commit_message h)]"
    and "head w3 = head w"
    by simp_all
qed

theorem commit_failure_is_fatal_witness:
  "fst (commit_and_push_changes ex_cfg
          (ex_host\<lparr>commit_err := Some ''nothing to commit, working tree clean''\<rparr>)
          (ex_world\<lparr>head := None\<rparr>)) = Inr False \<and>
   head (snd (commit_and_push_changes ex_cfg
          (ex_host\<lparr>commit_err := Some ''nothing to commit, working tree clean''\<rparr>)
          (ex_world\<lparr>head := None\<rparr>))) = None"
proof -
  let ?h = "ex_host\<lparr>commit_err := Some ''nothing to commit, working tree clean''\<rparr>"
  let ?w = "ex_world\<lparr>head := None\<rparr>"
  let ?w1 = "?w\<lparr>trace := [GitStatus]\<rparr>"
  let ?w2 = "?w\<lparr>trace := [GitStatus, GitAdd], messages := [ChangesDetected],
               staged := repo ex_world\<rparr>"
  let ?w3 = "?w2\<lparr>trace := [GitStatus, GitAdd, GitCommit (commit_message ?h)]\<rparr>"
  have 1: "run_git_command ?h GitStatus False ?w = (Inr (True, ''?? changed''), ?w1)"
    by (simp add: run_git_command_def porcelain_def ex_world_def ex_host_def)
  have 2: "\<not> blank ''?? changed''"
    by (simp add: blank_def isspace_def)
  have 3: "run_git_command ?h GitAdd False (say ChangesDetected ?w1) = (Inr (True, []), ?w2)"
    by (simp add: run_git_command_def ex_world_def ex_host_def say_def)
  have 4: "run_git_command ?h (GitCommit (commit_message ?h)) False ?w2
             = (Inr (False, ''nothing to commit, working tree clean''), ?w3)"
    by (simp add: run_git_command_def ex_world_def ex_host_def)
  from commit_failure_is_fatal [OF 1 2 3 4, of ex_cfg]
  have "fst (commit_and_push_changes ex_cfg ?h ?w) = Inr False"
    and "head (snd (commit_and_push_changes ex_cfg ?h ?w)) = head ?w"
    by simp_all
  then show ?thesis by simp
qed

subsection \<open>A missing scripts directory\<close>

text \<open>
  Claim C1 asks for a failure verdict, distinct from the success of a run with nothing
  to sync, when the scripts directory does not exist. The program evaluated on such a
  world: \<^verbatim>\<open>copy_scripts_to_repo\<close> prints that the directory was not found and returns
  \<open>False\<close>, which \<^verbatim>\<open>sync_to_git\<close> reads as nothing to sync, so the run returns
  \<open>True\<close>, the verdict of a run on an empty scripts directory. The only git command
  issued is the pull.
\<close>

theorem missing_scripts_directory_verdict:
  "sync_to_git ex_cfg ex_host (ex_world\<lparr>scripts := None\<rparr>)
     = (Inr True,
        ex_world\<lparr>scripts := None, trace := [GitPull],
                  messages := [UsingExistingRepo, ScriptsDirNotFound, NoScriptsToSync]\<rparr>) \<and>
   fst (sync_to_git ex_cfg ex_host (ex_world\<lparr>scripts := Some (Dir [])\<rparr>)) = Inr True"
  by (simp add: sync_to_git_def setup_git_repo_def run_git_command_def copy_then_publish_def
      copy_scripts_to_repo_def mirror_scripts_def mkdir_exist_ok_def user_dir_def
      current_user_def ex_world_def ex_host_def say_def Let_def ex_extensions)

subsection \<open>Namespace isolation\<close>



subsection \<open>Exclusion\<close>

text \<open>
  Claim C3. For every file name \<open>f\<close> and every list of suffixes \<open>S\<close>, the exclusion test
  of line 121 is true exactly when \<open>f\<close> ends with some suffix of \<open>S\<close> (\<open>f\<close> is a prefix
  followed by the suffix, character for character). Consequently a regular file of an
  app folder whose name ends with none of the suffixes that the configured value gives
  is in the working copy, at the same relative path below \<^verbatim>\<open>user/app_folder\<close> and
  with the same content, once \<^verbatim>\<open>copy_scripts_to_repo\<close> has returned and the folder
  was copied without a fault of the file system. The configured value is whatever line 99
  found: a list, a string (its characters are the suffixes), a dictionary (its keys are),
  or a value that cannot be iterated, which excludes nothing.
\<close>

theorem exclusion_filter_correct:
  "(excluded f S \<longleftrightarrow> (\<exists>s \<in> set S. \<exists>q. f = q @ s)) \<and>
   (copy_scripts_to_repo cfg h w = (Inr b, w') \<and> scripts w = Some (Dir items) \<and>
    distinct (map fst items) \<and> (a, Dir src) \<in> set items \<and> \<not> hidden a \<and>
    faults h a = NoFault \<and> lookup_path (Dir src) p = Some (File c) \<and>
    (\<forall>v S'. excluded_extensions cfg = Inr v \<and> suffixes_of v = Inr S'
        \<longrightarrow> \<not> excluded (last p) S')
    \<longrightarrow> at_path w' (current_user h # a # p) = Some (File c))"
proof (intro conjI impI)
  show "excluded f S \<longleftrightarrow> (\<exists>s \<in> set S. \<exists>q. f = q @ s)"
    by (rule excluded_iff)
next
  assume a: "copy_scripts_to_repo cfg h w = (Inr b, w') \<and> scripts w = Some (Dir items) \<and>
    distinct (map fst items) \<and> (a, Dir src) \<in> set items \<and> \<not> hidden a \<and>
    faults h a = NoFault \<and> lookup_path (Dir src) p = Some (File c) \<and>
    (\<forall>v S'. excluded_extensions cfg = Inr v \<and> suffixes_of v = Inr S'
        \<longrightarrow> \<not> excluded (last p) S')"
  then obtain k where m: "mirror_scripts cfg h (Dir items) w = (Inr k, w')"
    using copy_scripts_to_repo_Inr by blast
  from a have "distinct (map fst items)" "(a, Dir src) \<in> set items" "\<not> hidden a"
    "faults h a = NoFault"
    by simp_all
  from mirror_scripts_app [OF m this] obtain v where
    v: "excluded_extensions cfg = Inr v"
    and t: "at_path w' [current_user h, a] = Some (Dir (fst (snd (walk_app v src))))"
    by blast
  from a have l: "lookup_path (Dir src) p = Some (File c)"
    by simp
  from a v have "\<forall>S'. suffixes_of v = Inr S' \<longrightarrow> \<not> excluded (last p) S'"
    by simp
  from walk_app_keeps_file [OF l this]
  have "lookup_path (Dir (fst (snd (walk_app v src)))) p = Some (File c)" .
  with t at_path_below [of w' "[current_user h, a]" p]
  show "at_path w' (current_user h # a # p) = Some (File c)"
    by simp
qed

theorem exclusion_filter_correct_witness:
  "excluded ''junk.tmp'' [''.tmp'', ''.log'', ''.bak''] \<and>
   at_path (snd (copy_scripts_to_repo ex_cfg ex_host ex_world)) [''alice'', ''deploy'', ''run.sh'']
     = Some (File ''x'')"
proof -
  have "\<exists>s \<in> set [''.tmp'', ''.log'', ''.bak'']. \<exists>q. ''junk.tmp'' = q @ s"
    by (rule bexI [of _ "''.tmp''"], rule exI [of _ "''junk''"]) simp_all
  with exclusion_filter_correct [THEN conjunct1, of "''junk.tmp''" "[''.tmp'', ''.log'', ''.bak'']"]
  have 1: "excluded ''junk.tmp'' [''.tmp'', ''.log'', ''.bak'']"
    by (rule iffD2)
  have c: "copy_scripts_to_repo ex_cfg ex_host ex_world
             = (Inr True, snd (copy_scripts_to_repo ex_cfg ex_host ex_world))"
    using ex_copy by (metis prod.collapse)
  have hyp: "copy_scripts_to_repo ex_cfg ex_host ex_world
        = (Inr True, snd (copy_scripts_to_repo ex_cfg ex_host ex_world)) \<and>
      scripts ex_world = Some (Dir ex_scripts) \<and>
      distinct (map fst ex_scripts) \<and>
      (''deploy'', Dir [(''run.sh'', File ''x''), (''junk.tmp'', File ''y'')]) \<in> set ex_scripts \<and>
      \<not> hidden ''deploy'' \<and> faults ex_host ''deploy'' = NoFault \<and>
      lookup_path (Dir [(''run.sh'', File ''x''), (''junk.tmp'', File ''y'')]) [''run.sh'']
        = Some (File ''x'') \<and>
      (\<forall>v S'. excluded_extensions ex_cfg = Inr v \<and> suffixes_of v = Inr S'
          \<longrightarrow> \<not> excluded (last [''run.sh'']) S')"
    using c
    by (auto simp: ex_world_def ex_scripts_def hidden_def ex_host_def ex_extensions ex_excluded)
  from exclusion_filter_correct [THEN conjunct2, THEN mp, OF hyp]
  have 2: "at_path (snd (copy_scripts_to_repo ex_cfg ex_host ex_world))
             [''alice'', ''deploy'', ''run.sh''] = Some (File ''x'')"
    by (simp add: current_user_def ex_host_def)
  from 1 2 show ?thesis by (rule conjI)
qed

subsection \<open>Full replacement\<close>



subsection \<open>Failures while copying one app folder\<close>

text \<open>
  Claim C7 asks that a failure while processing one app folder, the removal of its old
  copy included, is logged and skips that folder only. The program evaluated on the
  fixtures with a file system on which \<^verbatim>\<open>shutil.rmtree\<close> of the old copy of
  \<^verbatim>\<open>backup\<close> fails: the call stands before the \<^verbatim>\<open>try\<close> (lines 111-112), so the
  exception leaves \<^verbatim>\<open>copy_scripts_to_repo\<close> and \<^verbatim>\<open>sync_to_git\<close>, and the folder
  \<^verbatim>\<open>deploy\<close> is never copied. When \<^verbatim>\<open>shutil.copytree\<close> fails for \<^verbatim>\<open>backup\<close>
  instead, inside the \<^verbatim>\<open>try\<close>, the loop goes on and \<^verbatim>\<open>deploy\<close> is copied.
\<close>

theorem rmtree_failure_aborts_the_copy:
  "fst (copy_scripts_to_repo ex_cfg
          (ex_host\<lparr>faults := (\<lambda>name. if name = ''backup''
                                then RmtreeFault (Some (Dir [(''stray.sh'', File ''s'')]))
                                else NoFault)\<rparr>) ex_world) = Inl OSError \<and>
   at_path (snd (copy_scripts_to_repo ex_cfg
          (ex_host\<lparr>faults := (\<lambda>name. if name = ''backup''
                                then RmtreeFault (Some (Dir [(''stray.sh'', File ''s'')]))
                                else NoFault)\<rparr>) ex_world)) [''alice'', ''deploy''] = None \<and>
   fst (sync_to_git ex_cfg
          (ex_host\<lparr>faults := (\<lambda>name. if name = ''backup''
                                then RmtreeFault (Some (Dir [(''stray.sh'', File ''s'')]))
                                else NoFault)\<rparr>) ex_world) = Inl OSError \<and>
   fst (copy_scripts_to_repo ex_cfg
          (ex_host\<lparr>faults := (\<lambda>name. if name = ''backup'' then CopyFault None else NoFault)\<rparr>)
          ex_world) = Inr True \<and>
   at_path (snd (copy_scripts_to_repo ex_cfg
          (ex_host\<lparr>faults := (\<lambda>name. if name = ''backup'' then CopyFault None else NoFault)\<rparr>)
          ex_world)) [''alice'', ''deploy''] = Some (Dir [(''run.sh'', File ''x'')])"
  by (simp add: sync_to_git_def setup_git_repo_def run_git_command_def copy_then_publish_def
      copy_scripts_to_repo_def mirror_scripts_def mkdir_exist_ok_def user_dir_def
      current_user_def copy_app_def rmtree_existing_def walk_app_def leave_def hidden_def
      at_path_def
      ex_world_def ex_host_def ex_scripts_def say_def Let_def ex_extensions ex_excluded)

subsection \<open>A second run\<close>

lemma run_commit:
  assumes "run_git_command h (GitCommit m) False w = (Inr (True, out), w1)"
  shows "w1 = w\<lparr>trace := trace w @ [GitCommit m], head := staged w\<rparr>"
  using run_git_command_ran [OF assms] by (auto split: option.splits)

lemma run_push:
  assumes "run_git_command h (GitPush b) False w = (Inr (True, out), w1)"
  shows "w1 = w\<lparr>trace := trace w @ [GitPush b]\<rparr>"
  using run_git_command_ran [OF assms] by (auto split: option.splits)

lemma run_status_output:
  assumes "run_git_command h GitStatus False w = (Inr (True, out), w1)"
  shows "out = porcelain w"
  using run_git_command_ran [OF assms] by (auto simp: porcelain_def split: option.splits)

lemma blank_porcelain: "blank (porcelain w) \<longleftrightarrow> head w = repo w"
  by (simp add: porcelain_def blank_def isspace_def)

lemma setup_git_repo_ok:
  assumes "setup_git_repo cfg h w = (Inr True, wa)"
  shows "(\<exists>es. repo wa = Some (Dir es)) \<and> scripts wa = scripts w"
proof (cases "repo w")
  case None
  let ?c = "GitClone (repository_url (git cfg)) (local_repo_path (git cfg))"
  obtain x w' where x: "run_git_command h ?c True (say CloningRepository w) = (x, w')"
    by (metis prod.collapse)
  with assms None obtain out where
    r: "run_git_command h ?c True (say CloningRepository w) = (Inr (True, out), w')"
    and wa: "wa = say RepositoryCloned w'"
    by (auto simp: setup_git_repo_def split: sum.splits if_splits)
  from run_git_command_ran [OF r] have "(\<exists>es. repo w' = Some (Dir es)) \<and> scripts w' = scripts w"
    by (auto split: clone_outcome.splits)
  with wa show ?thesis by simp
next
  case (Some t)
  obtain x w' where x: "run_git_command h GitPull False (say UsingExistingRepo w) = (x, w')"
    by (metis prod.collapse)
  with assms Some obtain ok out where
    r: "run_git_command h GitPull False (say UsingExistingRepo w) = (Inr (ok, out), w')"
    and wa: "wa = (if \<not> ok then say (PullWarning out) w' else w')"
    by (auto simp: setup_git_repo_def split: sum.splits)
  from r have "\<exists>es. repo w = Some (Dir es)"
    by (auto simp: run_git_command_def Let_def split: option.splits node.splits)
  with run_git_command_ran [OF r]
  have "(\<exists>es. repo w' = Some (Dir es)) \<and> scripts w' = scripts w"
    by (auto split: pull_outcome.splits)
  with wa show ?thesis by simp
qed

lemma setup_git_repo_quiet:
  assumes "repo w = Some (Dir es)"
    and "pull_outcome h = UpToDate \<or> (\<exists>e. pull_outcome h = PullFailed e)"
  shows "\<exists>wb. setup_git_repo cfg h w = (Inr True, wb) \<and> repo wb = repo w \<and>
           head wb = head w \<and> scripts wb = scripts w \<and> trace wb = trace w @ [GitPull]"
  using assms
  by (auto simp: setup_git_repo_def run_git_command_def)

lemma commit_and_push_changes_ok:
  assumes "commit_and_push_changes cfg h w = (Inr True, w')"
  shows "repo w' = repo w \<and> head w' = repo w \<and> scripts w' = scripts w"
proof -
  obtain x w1 where x: "run_git_command h GitStatus False w = (x, w1)"
    by (metis prod.collapse)
  with assms obtain out where s: "run_git_command h GitStatus False w = (Inr (True, out), w1)"
    by (auto simp: commit_and_push_changes_def split: sum.splits if_splits)
  note w1 = run_status [OF s] and out = run_status_output [OF s]
  show ?thesis
  proof (cases "blank out")
    case True
    with assms s have "w' = say NoChangesToCommit w1"
      by (simp add: commit_and_push_changes_def)
    with w1 True out show ?thesis
      by (simp add: blank_porcelain)
  next
    case False
    obtain y w2 where y: "run_git_command h GitAdd False (say ChangesDetected w1) = (y, w2)"
      by (metis prod.collapse)
    with assms s False obtain o2 where
      a: "run_git_command h GitAdd False (say ChangesDetected w1) = (Inr (True, o2), w2)"
      by (auto simp: commit_and_push_changes_def split: sum.splits if_splits)
    obtain z w3 where z: "run_git_command h (GitCommit (commit_message h)) False w2 = (z, w3)"
      by (metis prod.collapse)
    with assms s False a obtain o3 where
      c: "run_git_command h (GitCommit (commit_message h)) False w2 = (Inr (True, o3), w3)"
      by (auto simp: commit_and_push_changes_def split: sum.splits if_splits)
    obtain v w4 where v: "run_git_command h (GitPush (branch_name cfg)) False
                            (say ChangesCommitted w3) = (v, w4)"
      by (metis prod.collapse)
    with assms s False a c obtain o4 where
      p: "run_git_command h (GitPush (branch_name cfg)) False (say ChangesCommitted w3)
            = (Inr (True, o4), w4)"
      by (auto simp: commit_and_push_changes_def split: sum.splits if_splits)
    from assms s False a c p have "w' = say ChangesPushed w4"
      by (simp add: commit_and_push_changes_def)
    with w1 run_add [OF a] run_commit [OF c] run_push [OF p] show ?thesis
      by simp
  qed
qed

lemma commit_and_push_changes_clean:
  assumes "repo w = Some (Dir es)" and "head w = repo w" and "status_err h = None"
  shows "commit_and_push_changes cfg h w
           = (Inr True, say NoChangesToCommit (w\<lparr>trace := trace w @ [GitStatus]\<rparr>))"
  using assms
  by (simp add: commit_and_push_changes_def run_git_command_def porcelain_def blank_def)

lemma mirror_scripts_Dir_repo:
  assumes "mirror_scripts cfg h root w = (r, w')" and "repo w = Some (Dir es)"
  shows "\<exists>es'. repo w' = Some (Dir es')"
  using mirror_scripts_repo [OF assms(1)] assms(2) by auto

text \<open>The three ways in which steps 2 and 3 end with success.\<close>

lemma copy_then_publish_True:
  assumes "copy_then_publish cfg h wa = (Inr True, w1)"
  shows "(scripts wa = None \<and> w1 = say NoScriptsToSync (say ScriptsDirNotFound wa)) \<or>
         (\<exists>items wm. scripts wa = Some (Dir items) \<and>
            mirror_scripts cfg h (Dir items) wa = (Inr 0, wm) \<and> w1 = say NoScriptsToSync wm) \<or>
         (\<exists>items k wm wp. scripts wa = Some (Dir items) \<and> 0 < k \<and>
            mirror_scripts cfg h (Dir items) wa = (Inr k, wm) \<and>
            commit_and_push_changes cfg h wm = (Inr True, wp) \<and> w1 = say SyncCompleted wp)"
proof (cases "scripts wa")
  case None
  with assms show ?thesis
    by (simp add: copy_then_publish_def copy_scripts_to_repo_def)
next
  case (Some root)
  obtain r wm where m: "mirror_scripts cfg h root wa = (r, wm)"
    by (metis prod.collapse)
  with assms Some obtain k where r: "r = Inr k"
    by (cases r) (auto simp: copy_then_publish_def copy_scripts_to_repo_def)
  with m mirror_scripts_File obtain items where root: "root = Dir items"
    by (cases root) (metis fst_conv)+
  show ?thesis
  proof (cases "k = 0")
    case True
    with assms Some m r root show ?thesis
      by (simp add: copy_then_publish_def copy_scripts_to_repo_def)
  next
    case False
    obtain x wp where p: "commit_and_push_changes cfg h wm = (x, wp)"
      by (metis prod.collapse)
    with assms Some m r False have "x = Inr True" and "w1 = say SyncCompleted wp"
      by (auto simp: copy_then_publish_def copy_scripts_to_repo_def split: sum.splits if_splits)
    with Some m r root False p show ?thesis
      by auto
  qed
qed

lemma copy_then_publish_again:
  assumes c1: "copy_then_publish cfg h1 wa = (Inr True, w1)"
    and nf1: "\<forall>n. faults h1 n = NoFault" and nf2: "\<forall>n. faults h2 n = NoFault"
    and u: "current_user h2 = current_user h1"
    and st: "status_err h2 = None"
    and d: "\<forall>items. scripts wa = Some (Dir items) \<longrightarrow> distinct (map fst items)"
    and ra: "repo wa = Some (Dir es)"
    and rb: "repo wb = repo w1" and hb: "head wb = head w1" and sb: "scripts wb = scripts wa"
  shows "\<exists>w2. copy_then_publish cfg h2 wb = (Inr True, w2) \<and> repo w2 = repo w1 \<and>
           head w2 = head w1 \<and>
           (trace w2 = trace wb @ [GitStatus] \<and>
              (\<exists>ms. messages w2 = ms @ [NoChangesToCommit, SyncCompleted]) \<or>
            trace w2 = trace wb \<and> (\<exists>ms. messages w2 = ms @ [NoScriptsToSync]))"
  using copy_then_publish_True [OF c1]
proof (elim disjE exE conjE)
  assume "scripts wa = None" and "w1 = say NoScriptsToSync (say ScriptsDirNotFound wa)"
  with sb rb hb show ?thesis
    by (simp add: copy_then_publish_def copy_scripts_to_repo_def)
next
  fix items wm
  assume s: "scripts wa = Some (Dir items)"
    and m: "mirror_scripts cfg h1 (Dir items) wa = (Inr 0, wm)"
    and w1: "w1 = say NoScriptsToSync wm"
  from d s have di: "distinct (map fst items)" by simp
  from rb w1 have "repo wb = repo wm" by simp
  from mirror_scripts_idem [OF nf1 nf2 u di m this] obtain w3 where
    m2: "mirror_scripts cfg h2 (Dir items) wb = (Inr 0, w3)" and r3: "repo w3 = repo wm"
    by blast
  from mirror_scripts_frame [OF m2] have "trace w3 = trace wb" and "head w3 = head wb"
    by simp_all
  with m2 r3 s sb w1 hb show ?thesis
    by (simp add: copy_then_publish_def copy_scripts_to_repo_def)
next
  fix items k wm wp
  assume s: "scripts wa = Some (Dir items)" and k: "0 < k"
    and m: "mirror_scripts cfg h1 (Dir items) wa = (Inr k, wm)"
    and p: "commit_and_push_changes cfg h1 wm = (Inr True, wp)"
    and w1: "w1 = say SyncCompleted wp"
  from d s have di: "distinct (map fst items)" by simp
  from commit_and_push_changes_ok [OF p] w1
  have r1: "repo w1 = repo wm" and h1: "head w1 = repo wm"
    by simp_all
  with rb have "repo wb = repo wm" by simp
  from mirror_scripts_idem [OF nf1 nf2 u di m this] obtain w3 where
    m2: "mirror_scripts cfg h2 (Dir items) wb = (Inr k, w3)" and r3: "repo w3 = repo wm"
    by blast
  from mirror_scripts_frame [OF m2] have t3: "trace w3 = trace wb" and h3: "head w3 = head wb"
    by simp_all
  from mirror_scripts_Dir_repo [OF m ra] r3 obtain es3 where e3: "repo w3 = Some (Dir es3)"
    by auto
  from h3 hb h1 r3 have "head w3 = repo w3" by simp
  from commit_and_push_changes_clean [OF e3 this st, of cfg]
  have "commit_and_push_changes cfg h2 w3
          = (Inr True, say NoChangesToCommit (w3\<lparr>trace := trace w3 @ [GitStatus]\<rparr>))" .
  with m2 k s sb r3 r1 h3 hb t3 show ?thesis
    by (simp add: copy_then_publish_def copy_scripts_to_repo_def)
qed

lemma copy_then_publish_repo:
  assumes "copy_then_publish cfg h wa = (Inr True, w1)" and "repo wa = Some (Dir es)"
  shows "\<exists>es'. repo w1 = Some (Dir es')"
  using copy_then_publish_True [OF assms(1)]
proof (elim disjE exE conjE)
  assume "w1 = say NoScriptsToSync (say ScriptsDirNotFound wa)"
  with assms(2) show ?thesis by simp
next
  fix items wm
  assume "mirror_scripts cfg h (Dir items) wa = (Inr 0, wm)" and "w1 = say NoScriptsToSync wm"
  with mirror_scripts_Dir_repo [OF _ assms(2)] show ?thesis by simp
next
  fix items k wm wp
  assume "mirror_scripts cfg h (Dir items) wa = (Inr k, wm)"
    and "commit_and_push_changes cfg h wm = (Inr True, wp)" and "w1 = say SyncCompleted wp"
  with mirror_scripts_Dir_repo [OF _ assms(2)] commit_and_push_changes_ok show ?thesis
    by (metis say_simps(2))
qed

lemma copy_then_publish_scripts:
  assumes "copy_then_publish cfg h wa = (Inr True, w1)"
  shows "scripts w1 = scripts wa"
  using copy_then_publish_True [OF assms]
proof (elim disjE exE conjE)
  assume "w1 = say NoScriptsToSync (say ScriptsDirNotFound wa)"
  then show ?thesis by simp
next
  fix items wm
  assume "mirror_scripts cfg h (Dir items) wa = (Inr 0, wm)" and "w1 = say NoScriptsToSync wm"
  with mirror_scripts_frame(4) show ?thesis by (metis say_simps(1))
next
  fix items k wm wp
  assume "mirror_scripts cfg h (Dir items) wa = (Inr k, wm)"
    and "commit_and_push_changes cfg h wm = (Inr True, wp)" and "w1 = say SyncCompleted wp"
  with mirror_scripts_frame(4) commit_and_push_changes_ok show ?thesis
    by (metis say_simps(1))
qed


lemma ex_sync: "fst (sync_to_git ex_cfg ex_host ex_world) = Inr True"
  by (simp add: sync_to_git_def setup_git_repo_def run_git_command_def copy_then_publish_def
      copy_scripts_to_repo_def mirror_scripts_def mkdir_exist_ok_def user_dir_def
      current_user_def copy_app_def rmtree_existing_def walk_app_def hidden_def
      commit_and_push_changes_def porcelain_def blank_def isspace_def
      ex_world_def ex_host_def ex_scripts_def say_def Let_def ex_extensions ex_excluded)


subsection \<open>Default exclusion suffixes\<close>

text \<open>
  Claim C10 says that the copy uses exactly the suffixes \<^verbatim>\<open>.tmp\<close>, \<^verbatim>\<open>.log\<close>,
  \<^verbatim>\<open>.bak\<close> whenever the configuration supplies no \<^verbatim>\<open>sync.exclude_extensions\<close> entry.
  The program evaluated on two documents that supply no such entry. With the key
  \<^verbatim>\<open>sync\<close> and nothing under it, line 99 raises \<^verbatim>\<open>AttributeError\<close> once the user
  folder is made and before any app folder is copied. With a \<^verbatim>\<open>sync\<close> section whose
  key \<^verbatim>\<open>exclude_extensions\<close> has nothing under it, line 99 gives \<^verbatim>\<open>None\<close>, the test
  of line 121 raises at the first regular file of every app folder, no file is counted
  and the file \<^verbatim>\<open>junk.tmp\<close> stays in the working copy.
\<close>

theorem null_entry_counterexample:
  "sync ex_cfg_null_sync = Some YNull \<and>
   fst (copy_scripts_to_repo ex_cfg_null_sync ex_host ex_world) = Inl AttributeError \<and>
   at_path (snd (copy_scripts_to_repo ex_cfg_null_sync ex_host ex_world)) [''alice'', ''deploy'']
     = None \<and>
   sync ex_cfg_null_key = Some (YMap [(''exclude_extensions'', YNull)]) \<and>
   excluded_extensions ex_cfg_null_key = Inr YNull \<and>
   fst (copy_scripts_to_repo ex_cfg_null_key ex_host ex_world) = Inr False \<and>
   at_path (snd (copy_scripts_to_repo ex_cfg_null_key ex_host ex_world))
     [''alice'', ''deploy'', ''junk.tmp''] = Some (File ''y'')"
  by (simp add: copy_scripts_to_repo_def mirror_scripts_def mkdir_exist_ok_def user_dir_def
      current_user_def copy_app_def rmtree_existing_def walk_app_def hidden_def at_path_def
      excluded_extensions_def ex_cfg_null_sync_def ex_cfg_null_key_def ex_cfg_def
      ex_world_def ex_host_def ex_scripts_def say_def Let_def)

text \<open>
  Claim C10, for a document without the key. When the configuration has no key
  \<^verbatim>\<open>sync\<close>, or the value under \<^verbatim>\<open>sync\<close> is a dictionary without the key
  \<^verbatim>\<open>exclude_extensions\<close>, line 99 gives the list \<^verbatim>\<open>.tmp\<close>, \<^verbatim>\<open>.log\<close>, \<^verbatim>\<open>.bak\<close>:
  three entries, a proper subset of the five entries that \<^verbatim>\<open>create_sample_git_config\<close>
  writes. This list is the one the copy uses: every app folder that
  \<^verbatim>\<open>copy_scripts_to_repo\<close> copies without a fault of the file system is, in the
  working copy, the source folder walked with exactly these three suffixes.
\<close>

theorem default_exclude_extensions:
  assumes "sync cfg = None \<or>
           (\<exists>m. sync cfg = Some (YMap m) \<and> map_of m ''exclude_extensions'' = None)"
  shows "excluded_extensions cfg = Inr (YSeq [''.tmp'', ''.log'', ''.bak'']) \<and>
         excluded_extensions create_sample_git_config
           = Inr (YSeq [''.tmp'', ''.log'', ''.bak'', ''.swp'', ''.DS_Store'']) \<and>
         set [''.tmp'', ''.log'', ''.bak'']
           \<subset> set [''.tmp'', ''.log'', ''.bak'', ''.swp'', ''.DS_Store''] \<and>
         (copy_scripts_to_repo cfg h w = (Inr b, w') \<and> scripts w = Some (Dir items) \<and>
          distinct (map fst items) \<and> (a, Dir src) \<in> set items \<and> \<not> hidden a \<and>
          faults h a = NoFault
          \<longrightarrow> at_path w' [current_user h, a]
                = Some (Dir (fst (walk [''.tmp'', ''.log'', ''.bak''] src))))"
proof (intro conjI impI)
  from assms show d: "excluded_extensions cfg = Inr (YSeq [''.tmp'', ''.log'', ''.bak''])"
  proof
    assume "sync cfg = None"
    then show ?thesis by (simp add: excluded_extensions_def)
  next
    assume "\<exists>m. sync cfg = Some (YMap m) \<and> map_of m ''exclude_extensions'' = None"
    then obtain m where "sync cfg = Some (YMap m)" and "map_of m ''exclude_extensions'' = None"
      by blast
    then show ?thesis by (simp add: excluded_extensions_def)
  qed
  show "excluded_extensions create_sample_git_config
          = Inr (YSeq [''.tmp'', ''.log'', ''.bak'', ''.swp'', ''.DS_Store''])"
    by (simp add: excluded_extensions_def create_sample_git_config_def)
  show "set [''.tmp'', ''.log'', ''.bak'']
          \<subset> set [''.tmp'', ''.log'', ''.bak'', ''.swp'', ''.DS_Store'']"
  proof (rule psubsetI)
    show "set [''.tmp'', ''.log'', ''.bak'']
            \<subseteq> set [''.tmp'', ''.log'', ''.bak'', ''.swp'', ''.DS_Store'']"
      by simp
    have "''.swp'' \<in> set [''.tmp'', ''.log'', ''.bak'', ''.swp'', ''.DS_Store'']"
      by simp
    moreover have "''.swp'' \<notin> set [''.tmp'', ''.log'', ''.bak'']"
      by simp
    ultimately show "set [''.tmp'', ''.log'', ''.bak'']
                       \<noteq> set [''.tmp'', ''.log'', ''.bak'', ''.swp'', ''.DS_Store'']"
      by metis
  qed
  assume a: "copy_scripts_to_repo cfg h w = (Inr b, w') \<and> scripts w = Some (Dir items) \<and>
    distinct (map fst items) \<and> (a, Dir src) \<in> set items \<and> \<not> hidden a \<and>
    faults h a = NoFault"
  then obtain k where m: "mirror_scripts cfg h (Dir items) w = (Inr k, w')"
    using copy_scripts_to_repo_Inr by blast
  from a have "distinct (map fst items)" "(a, Dir src) \<in> set items" "\<not> hidden a"
    "faults h a = NoFault"
    by simp_all
  from mirror_scripts_app [OF m this] d
  have "at_path w' [current_user h, a]
          = Some (Dir (fst (snd (walk_app (YSeq [''.tmp'', ''.log'', ''.bak'']) src))))"
    by simp
  then show "at_path w' [current_user h, a]
               = Some (Dir (fst (walk [''.tmp'', ''.log'', ''.bak''] src)))"
    by (simp add: walk_app_def)
qed

theorem default_exclude_extensions_witness:
  "sync ex_cfg = None \<and>
   excluded_extensions ex_cfg = Inr (YSeq [''.tmp'', ''.log'', ''.bak'']) \<and>
   at_path (snd (copy_scripts_to_repo ex_cfg ex_host ex_world)) [''alice'', ''deploy'']
     = Some (Dir [(''run.sh'', File ''x'')]) \<and>
   excluded_extensions (ex_cfg\<lparr>sync := Some (YMap [(''include_hidden'', YBool False)])\<rparr>)
     = Inr (YSeq [''.tmp'', ''.log'', ''.bak''])"
proof -
  let ?cfg = "ex_cfg\<lparr>sync := Some (YMap [(''include_hidden'', YBool False)])\<rparr>"
  have "sync ?cfg = Some (YMap [(''include_hidden'', YBool False)]) \<and>
        map_of [(''include_hidden'', YBool False)] ''exclude_extensions'' = None"
    by simp
  then have "sync ?cfg = None \<or>
      (\<exists>m. sync ?cfg = Some (YMap m) \<and> map_of m ''exclude_extensions'' = None)"
    by blast
  from default_exclude_extensions [OF this]
  have 3: "excluded_extensions ?cfg = Inr (YSeq [''.tmp'', ''.log'', ''.bak''])"
    by (rule conjunct1)
  let ?src = "[(''run.sh'', File ''x''), (''junk.tmp'', File ''y'')]"
  have n: "sync ex_cfg = None"
    by (simp add: ex_cfg_def)
  then have 0: "sync ex_cfg = None \<or>
      (\<exists>m. sync ex_cfg = Some (YMap m) \<and> map_of m ''exclude_extensions'' = None)"
    by (rule disjI1)
  note r = default_exclude_extensions [OF 0, where h = ex_host and w = ex_world and b = True
      and w' = "snd (copy_scripts_to_repo ex_cfg ex_host ex_world)" and items = ex_scripts
      and a = "''deploy''" and src = ?src]
  have c: "copy_scripts_to_repo ex_cfg ex_host ex_world
             = (Inr True, snd (copy_scripts_to_repo ex_cfg ex_host ex_world))"
    using ex_copy by (metis prod.collapse)
  have hyp: "copy_scripts_to_repo ex_cfg ex_host ex_world
        = (Inr True, snd (copy_scripts_to_repo ex_cfg ex_host ex_world)) \<and>
      scripts ex_world = Some (Dir ex_scripts) \<and>
      distinct (map fst ex_scripts) \<and> (''deploy'', Dir ?src) \<in> set ex_scripts \<and>
      \<not> hidden ''deploy'' \<and> faults ex_host ''deploy'' = NoFault"
    using c
    by (simp add: ex_world_def ex_scripts_def hidden_def ex_host_def)
  from r [THEN conjunct2, THEN conjunct2, THEN conjunct2, THEN mp, OF hyp]
  have 2: "at_path (snd (copy_scripts_to_repo ex_cfg ex_host ex_world)) [''alice'', ''deploy'']
             = Some (Dir [(''run.sh'', File ''x'')])"
    by (simp add: current_user_def ex_host_def ex_excluded)
  from r have 1: "excluded_extensions ex_cfg = Inr (YSeq [''.tmp'', ''.log'', ''.bak''])"
    by (rule conjunct1)
  from n 1 2 3 show ?thesis by (intro conjI)
qed

end
